theory Spec2Isabelle
  imports Main
begin

section \<open>The card game SET: card model and set detection (set.py)\<close>

subsection \<open>Errors\<close>

text \<open>
  The Python exceptions the modelled functions can raise. A function that can raise returns
  \<open>error + 'a\<close>, with \<open>Inl\<close> for the exception. The key or message an exception
  carries is not modelled.
\<close>

datatype error = KeyError | IndexError | ValueError | AttributeError | TypeError

subsection \<open>Card\<close>

text \<open>
  \<^verbatim>\<open>class Card\<close>: four attributes and the name of the image file the card was read from.
  The constructor checks nothing, so the three string attributes are arbitrary strings and
  \<open>number\<close> is an arbitrary integer.
\<close>

record Card =
  color :: string
  symbol :: string
  shading :: string
  number :: int
  filename :: string

text \<open>A dictionary lookup \<^verbatim>\<open>d[k]\<close>, which raises KeyError on a missing key.\<close>

definition lookup :: "('k \<rightharpoonup> 'v) \<Rightarrow> 'k \<Rightarrow> error + 'v" where
  "lookup d k = (case d k of None \<Rightarrow> Inl KeyError | Some v \<Rightarrow> Inr v)"

definition colors :: "string \<rightharpoonup> int" where
  "colors = map_of [(''red'', 0), (''green'', 1), (''purple'', 2)]"

definition symbols :: "string \<rightharpoonup> int" where
  "symbols = map_of [(''diamond'', 0), (''squiggle'', 1), (''oval'', 2)]"

definition shadings :: "string \<rightharpoonup> int" where
  "shadings = map_of [(''empty'', 0), (''filled'', 1), (''shaded'', 2)]"

text \<open>
  \<^verbatim>\<open>Card.as_vector\<close>: the tuple is a list of four integers; the three lookups are made in
  the order of the tuple's components.
\<close>

definition as_vector :: "Card \<Rightarrow> error + int list" where
  "as_vector c =
     (case lookup colors (color c) of Inl e \<Rightarrow> Inl e | Inr ci \<Rightarrow>
       (case lookup symbols (symbol c) of Inl e \<Rightarrow> Inl e | Inr si \<Rightarrow>
         (case lookup shadings (shading c) of Inl e \<Rightarrow> Inl e | Inr hi \<Rightarrow>
            Inr [ci, si, hi, number c - 1])))"

subsection \<open>is_set\<close>

text \<open>
  The loop \<^verbatim>\<open>for i in range(4)\<close> of \<^verbatim>\<open>is_set\<close>, over the positions still to visit:
  the set of the three values at position \<open>i\<close> must have 1 or 3 elements, and the first
  position where it has not returns False.
\<close>

fun is_set_loop :: "int list list \<Rightarrow> nat list \<Rightarrow> bool" where
  "is_set_loop vectors [] = True"
| "is_set_loop vectors (i # rest) =
     (let vals = set (map (\<lambda>v. v ! i) vectors)
      in if card vals \<notin> {1, 3} then False else is_set_loop vectors rest)"

definition is_set :: "Card \<Rightarrow> Card \<Rightarrow> Card \<Rightarrow> error + bool" where
  "is_set card1 card2 card3 =
     (case as_vector card1 of Inl e \<Rightarrow> Inl e | Inr v1 \<Rightarrow>
       (case as_vector card2 of Inl e \<Rightarrow> Inl e | Inr v2 \<Rightarrow>
         (case as_vector card3 of Inl e \<Rightarrow> Inl e | Inr v3 \<Rightarrow>
            Inr (is_set_loop [v1, v2, v3] [0..<4]))))"

subsection \<open>find_one_set and find_all_sets\<close>

text \<open>
  \<^verbatim>\<open>find_one_set\<close>: three nested \<^verbatim>\<open>for\<close> loops, each a recursion over the
  indices its \<^verbatim>\<open>range\<close> still has to visit. \<^verbatim>\<open>return (i, j, k)\<close> leaves all three
  loops, \<^verbatim>\<open>return None\<close> is reached when the outer loop is exhausted, and an exception
  of \<^verbatim>\<open>is_set\<close> leaves the function. The indices satisfy \<open>i < j < k < len(cards)\<close>,
  so \<^verbatim>\<open>cards[i]\<close> never raises.
\<close>

fun find_one_k :: "Card list \<Rightarrow> nat \<Rightarrow> nat \<Rightarrow> nat list \<Rightarrow> error + (nat \<times> nat \<times> nat) option" where
  "find_one_k cards i j [] = Inr None"
| "find_one_k cards i j (k # ks) =
     (case is_set (cards ! i) (cards ! j) (cards ! k) of
        Inl e \<Rightarrow> Inl e
      | Inr b \<Rightarrow> if b then Inr (Some (i, j, k)) else find_one_k cards i j ks)"

fun find_one_j :: "Card list \<Rightarrow> nat \<Rightarrow> nat list \<Rightarrow> error + (nat \<times> nat \<times> nat) option" where
  "find_one_j cards i [] = Inr None"
| "find_one_j cards i (j # js) =
     (case find_one_k cards i j [j + 1..<length cards] of
        Inl e \<Rightarrow> Inl e
      | Inr (Some t) \<Rightarrow> Inr (Some t)
      | Inr None \<Rightarrow> find_one_j cards i js)"

fun find_one_i :: "Card list \<Rightarrow> nat list \<Rightarrow> error + (nat \<times> nat \<times> nat) option" where
  "find_one_i cards [] = Inr None"
| "find_one_i cards (i # is) =
     (case find_one_j cards i [i + 1..<length cards] of
        Inl e \<Rightarrow> Inl e
      | Inr (Some t) \<Rightarrow> Inr (Some t)
      | Inr None \<Rightarrow> find_one_i cards is)"

definition find_one_set :: "Card list \<Rightarrow> error + (nat \<times> nat \<times> nat) option" where
  "find_one_set cards = find_one_i cards [0..<length cards]"

text \<open>
  \<^verbatim>\<open>find_all_sets\<close>: the same three loops; the list \<^verbatim>\<open>sets\<close> is threaded through
  them and every qualifying triple is appended to it.
\<close>

fun find_all_k :: "Card list \<Rightarrow> nat \<Rightarrow> nat \<Rightarrow> nat list \<Rightarrow> (nat \<times> nat \<times> nat) list
    \<Rightarrow> error + (nat \<times> nat \<times> nat) list" where
  "find_all_k cards i j [] sets = Inr sets"
| "find_all_k cards i j (k # ks) sets =
     (case is_set (cards ! i) (cards ! j) (cards ! k) of
        Inl e \<Rightarrow> Inl e
      | Inr b \<Rightarrow> find_all_k cards i j ks (if b then sets @ [(i, j, k)] else sets))"

fun find_all_j :: "Card list \<Rightarrow> nat \<Rightarrow> nat list \<Rightarrow> (nat \<times> nat \<times> nat) list
    \<Rightarrow> error + (nat \<times> nat \<times> nat) list" where
  "find_all_j cards i [] sets = Inr sets"
| "find_all_j cards i (j # js) sets =
     (case find_all_k cards i j [j + 1..<length cards] sets of
        Inl e \<Rightarrow> Inl e
      | Inr sets' \<Rightarrow> find_all_j cards i js sets')"

fun find_all_i :: "Card list \<Rightarrow> nat list \<Rightarrow> (nat \<times> nat \<times> nat) list
    \<Rightarrow> error + (nat \<times> nat \<times> nat) list" where
  "find_all_i cards [] sets = Inr sets"
| "find_all_i cards (i # is) sets =
     (case find_all_j cards i [i + 1..<length cards] sets of
        Inl e \<Rightarrow> Inl e
      | Inr sets' \<Rightarrow> find_all_i cards is sets')"

definition find_all_sets :: "Card list \<Rightarrow> error + (nat \<times> nat \<times> nat) list" where
  "find_all_sets cards = find_all_i cards [0..<length cards] []"

text \<open>
  The order in which the specification says the triples are scanned: the lexicographic
  order of \<open>(i, j, k)\<close>.
\<close>

definition lex_less :: "nat \<times> nat \<times> nat \<Rightarrow> nat \<times> nat \<times> nat \<Rightarrow> bool" where
  "lex_less s t =
     (case s of (i', j', k') \<Rightarrow> (case t of (i, j, k) \<Rightarrow>
        i' < i \<or> (i' = i \<and> (j' < j \<or> (j' = j \<and> k' < k)))))"

text \<open>
  The first element of a list, if there is one, and the cards \<^verbatim>\<open>as_vector\<close> accepts:
  the cards the specification calls cards.
\<close>

definition first_opt :: "'a list \<Rightarrow> 'a option" where
  "first_opt xs = (case xs of [] \<Rightarrow> None | x # _ \<Rightarrow> Some x)"

definition has_vector :: "Card \<Rightarrow> bool" where
  "has_vector c = (\<exists>v. as_vector c = Inr v)"

subsection \<open>Reading the deck\<close>

text \<open>
  Strings are lists of \<open>char\<close>, the 256 characters with code points below 256; a file
  name with any other character is not a value of this model (there Python's \<^verbatim>\<open>int\<close>
  also accepts the decimal digits of other scripts). \<^verbatim>\<open>sub in s\<close>, \<^verbatim>\<open>s.endswith(suf)\<close> and
  \<^verbatim>\<open>s.split(sep)\<close> for a non-empty separator (the three the source uses are literals):
  the pieces between the occurrences of \<open>sep\<close>, found from left to right.
\<close>

fun contains :: "string \<Rightarrow> string \<Rightarrow> bool" where
  "contains sub [] = (sub = [])"
| "contains sub (c # s) = (take (length sub) (c # s) = sub \<or> contains sub s)"

definition endswith :: "string \<Rightarrow> string \<Rightarrow> bool" where
  "endswith s suf = (length suf \<le> length s \<and> drop (length s - length suf) s = suf)"

function split_on :: "string \<Rightarrow> string \<Rightarrow> string \<Rightarrow> string list" where
  "split_on sep cur [] = [cur]"
| "split_on sep cur (c # s) =
     (if sep \<noteq> [] \<and> take (length sep) (c # s) = sep
      then cur # split_on sep [] (drop (length sep) (c # s))
      else split_on sep (cur @ [c]) s)"
  by pat_completeness auto
termination
  by (relation "measure (\<lambda>(sep, cur, s). length s)") auto

definition split :: "string \<Rightarrow> string \<Rightarrow> error + string list" where
  "split s sep = (if sep = [] then Inl ValueError else Inr (split_on sep [] s))"

text \<open>
  \<^verbatim>\<open>int(s)\<close> for the one-character string the source passes. A \<open>char\<close> is one of 256
  characters, and among them \<^verbatim>\<open>int\<close> accepts the ten ASCII digits and raises ValueError
  on the others.
\<close>

definition int_of_char :: "char \<Rightarrow> error + int" where
  "int_of_char ch =
     (case map_of [(CHR ''0'', 0), (CHR ''1'', 1), (CHR ''2'', 2), (CHR ''3'', 3), (CHR ''4'', 4),
                   (CHR ''5'', 5), (CHR ''6'', 6), (CHR ''7'', 7), (CHR ''8'', 8), (CHR ''9'', 9)] ch of
        None \<Rightarrow> Inl ValueError
      | Some n \<Rightarrow> Inr n)"

definition color_map :: "string \<rightharpoonup> string" where
  "color_map = map_of [(''red'', ''red''), (''gre'', ''green''), (''pur'', ''purple'')]"

text \<open>
  \<^verbatim>\<open>Card.from_filename\<close>. \<^verbatim>\<open>parts[0]\<close> always exists; \<^verbatim>\<open>parts[1]\<close> raises IndexError
  when the symbol does not occur in the name, and \<^verbatim>\<open>parts[1][-1]\<close> raises it when
  nothing follows the symbol.
\<close>

definition from_filename :: "string \<Rightarrow> error + Card" where
  "from_filename fname =
     (let sym = (if contains ''squiggle'' fname then ''squiggle''
                 else if contains ''oval'' fname then ''oval'' else ''diamond'')
      in (case split (take (length fname - 4) fname) sym of Inl e \<Rightarrow> Inl e | Inr parts \<Rightarrow>
           (let color_abbreviation = take 3 (parts ! 0)
            in (case lookup color_map color_abbreviation of Inl e \<Rightarrow> Inl e | Inr col \<Rightarrow>
                 (if length parts < 2 then Inl IndexError
                  else (let shad = butlast (parts ! 1)
                        in (if parts ! 1 = [] then Inl IndexError
                            else (case int_of_char (last (parts ! 1)) of
                                    Inl e \<Rightarrow> Inl e
                                  | Inr num \<Rightarrow>
                                      Inr \<lparr>color = col, symbol = sym, shading = shad,
                                           number = num, filename = fname\<rparr>))))))))"

text \<open>
  \<^verbatim>\<open>load_cards_from_folder\<close>, from the list of names \<^verbatim>\<open>os.listdir(folder)\<close> returns:
  the list comprehension reads the names ending in \<^verbatim>\<open>.gif\<close> in order, and the first
  name \<^verbatim>\<open>from_filename\<close> rejects raises.
\<close>

fun load_cards_from_folder :: "string list \<Rightarrow> error + Card list" where
  "load_cards_from_folder [] = Inr []"
| "load_cards_from_folder (f # card_files) =
     (if endswith f ''.gif''
      then case from_filename f of
             Inl e \<Rightarrow> Inl e
           | Inr c \<Rightarrow> (case load_cards_from_folder card_files of
                        Inl e \<Rightarrow> Inl e
                      | Inr cs \<Rightarrow> Inr (c # cs))
      else load_cards_from_folder card_files)"

text \<open>
  Modelled from the spec: the contents of the image folder \<^verbatim>\<open>kaarten\<close>, which is not
  among the sources. The specification gives the deck one card for each combination of the
  three values of color, symbol and shading and the numbers 1 to 3, and the comment in
  \<^verbatim>\<open>from_filename\<close> gives the naming convention (\<^verbatim>\<open>redsquiggleempty3.gif\<close>).
  \<open>universe\<close> is that deck and \<open>kaarten\<close> the names of its files.
\<close>

definition color_names :: "string list" where
  "color_names = [''red'', ''green'', ''purple'']"

definition symbol_names :: "string list" where
  "symbol_names = [''diamond'', ''squiggle'', ''oval'']"

definition shading_names :: "string list" where
  "shading_names = [''empty'', ''filled'', ''shaded'']"

definition digit :: "int \<Rightarrow> char" where
  "digit n = (if n = 1 then CHR ''1'' else if n = 2 then CHR ''2'' else CHR ''3'')"

definition mk_card :: "string \<Rightarrow> string \<Rightarrow> string \<Rightarrow> int \<Rightarrow> Card" where
  "mk_card c s h n =
     \<lparr>color = c, symbol = s, shading = h, number = n,
      filename = c @ s @ h @ [digit n] @ ''.gif''\<rparr>"

definition universe :: "Card list" where
  "universe = [mk_card c s h n. c \<leftarrow> color_names, s \<leftarrow> symbol_names, h \<leftarrow> shading_names,
                                 n \<leftarrow> [1, 2, 3]]"

definition kaarten :: "string list" where
  "kaarten = map filename universe"

definition attributes :: "Card \<Rightarrow> string \<times> string \<times> string \<times> int" where
  "attributes c = (color c, symbol c, shading c, number c)"

text \<open>The card of the deck with a given vector.\<close>

definition card_of_vector :: "int \<Rightarrow> int \<Rightarrow> int \<Rightarrow> int \<Rightarrow> Card" where
  "card_of_vector ci si hi ni =
     mk_card (color_names ! nat ci) (symbol_names ! nat si) (shading_names ! nat hi) (ni + 1)"

section \<open>The game loop\<close>

subsection \<open>replace_cards\<close>

text \<open>
  The closure \<^verbatim>\<open>replace_cards\<close> mutates the lists \<^verbatim>\<open>displayed_cards\<close> and
  \<^verbatim>\<open>remaining_deck\<close> of \<^verbatim>\<open>main\<close>; here it takes and returns the pair of them. A
  board slot is \<open>Some card\<close> or \<open>None\<close>. Its callers pass indices that are not
  negative, so an index is a natural number; \<^verbatim>\<open>displayed_cards[idx] = ...\<close> raises
  IndexError when \<open>idx\<close> is not below the length of the board.
\<close>

fun replace_cards :: "nat list \<Rightarrow> Card option list \<times> Card list
    \<Rightarrow> error + Card option list \<times> Card list" where
  "replace_cards [] (board, deck) = Inr (board, deck)"
| "replace_cards (idx # indices) (board, deck) =
     (case deck of
        c # deck' \<Rightarrow>
          (if idx < length board then replace_cards indices (board[idx := Some c], deck')
           else Inl IndexError)
      | [] \<Rightarrow>
          (if idx < length board then replace_cards indices (board[idx := None], [])
           else Inl IndexError))"

subsection \<open>The state of the game and its events\<close>

datatype state = Home | Playing | End

datatype event = MOUSEBUTTONDOWN int int | USEREVENT | OTHER

record game =
  game_state :: state
  home_timer :: int
  timer :: int
  player_score :: int
  computer_score :: int
  displayed_cards :: "Card option list"
  remaining_deck :: "Card list"
  selected_cards :: "nat list"

text \<open>\<^verbatim>\<open>[card for card in displayed_cards if card is not None]\<close>\<close>

definition present :: "Card option list \<Rightarrow> Card list" where
  "present board = map the (filter (\<lambda>card. card \<noteq> None) board)"

text \<open>
  The branch for \<^verbatim>\<open>pygame.USEREVENT\<close>, the tick of the one-second timer. A tuple
  \<^verbatim>\<open>(i, j, k)\<close> is true in a condition and \<^verbatim>\<open>None\<close> is false.
\<close>

definition on_tick :: "game \<Rightarrow> error + game" where
  "on_tick g =
     (let g1 = g\<lparr>timer := timer g - 1\<rparr>
      in if timer g1 \<le> 0 then
           (case find_one_set (present (displayed_cards g1)) of
              Inl e \<Rightarrow> Inl e
            | Inr (Some (i, j, k)) \<Rightarrow>
                (case replace_cards [i, j, k] (displayed_cards g1, remaining_deck g1) of
                   Inl e \<Rightarrow> Inl e
                 | Inr (board, deck) \<Rightarrow>
                     Inr (g1\<lparr>computer_score := computer_score g1 + 1,
                             displayed_cards := board, remaining_deck := deck,
                             timer := home_timer g1\<rparr>))
            | Inr None \<Rightarrow>
                (case replace_cards [0, 1, 2] (displayed_cards g1, remaining_deck g1) of
                   Inl e \<Rightarrow> Inl e
                 | Inr (board, deck) \<Rightarrow>
                     Inr (g1\<lparr>displayed_cards := board, remaining_deck := deck,
                             timer := home_timer g1\<rparr>)))
         else Inr g1)"

text \<open>
  \<^verbatim>\<open>[displayed_cards[i] for i in selected_cards]\<close>, and the call \<^verbatim>\<open>is_set(*cards)\<close>
  on the slots read: \<^verbatim>\<open>as_vector\<close> is called on the three arguments in order, and
  on \<^verbatim>\<open>None\<close> it raises AttributeError.
\<close>

fun slots_at :: "Card option list \<Rightarrow> nat list \<Rightarrow> error + Card option list" where
  "slots_at board [] = Inr []"
| "slots_at board (i # rest) =
     (if i < length board
      then (case slots_at board rest of Inl e \<Rightarrow> Inl e | Inr cs \<Rightarrow> Inr (board ! i # cs))
      else Inl IndexError)"

definition as_vector_slot :: "Card option \<Rightarrow> error + int list" where
  "as_vector_slot x = (case x of None \<Rightarrow> Inl AttributeError | Some c \<Rightarrow> as_vector c)"

definition is_set_slots :: "Card option list \<Rightarrow> error + bool" where
  "is_set_slots cards =
     (case cards of
        [card1, card2, card3] \<Rightarrow>
          (case as_vector_slot card1 of Inl e \<Rightarrow> Inl e | Inr v1 \<Rightarrow>
            (case as_vector_slot card2 of Inl e \<Rightarrow> Inl e | Inr v2 \<Rightarrow>
              (case as_vector_slot card3 of Inl e \<Rightarrow> Inl e | Inr v3 \<Rightarrow>
                 Inr (is_set_loop [v1, v2, v3] [0..<4]))))
      | _ \<Rightarrow> Inl TypeError)"

text \<open>
  The branch for \<^verbatim>\<open>pygame.MOUSEBUTTONDOWN\<close> at the position \<open>(mouse_x, mouse_y)\<close>.
  \<^verbatim>\<open>//\<close> rounds down, as \<open>div\<close> does on \<open>int\<close>.
\<close>

definition toggle :: "nat \<Rightarrow> nat list \<Rightarrow> nat list" where
  "toggle clicked_index selected =
     (if clicked_index \<in> set selected then remove1 clicked_index selected
      else selected @ [clicked_index])"

definition on_click :: "int \<Rightarrow> int \<Rightarrow> game \<Rightarrow> error + game" where
  "on_click mouse_x mouse_y g =
     (let clicked_index = (mouse_y div 200) * 4 + (mouse_x div 250)
      in if 0 \<le> clicked_index \<and> clicked_index < int (length (displayed_cards g))
            \<and> displayed_cards g ! nat clicked_index \<noteq> None
         then
           (let selected = toggle (nat clicked_index) (selected_cards g)
            in if length selected = 3 then
                 (case slots_at (displayed_cards g) selected of
                    Inl e \<Rightarrow> Inl e
                  | Inr cards \<Rightarrow>
                      (case is_set_slots cards of
                         Inl e \<Rightarrow> Inl e
                       | Inr b \<Rightarrow>
                           (if b then
                              (case replace_cards selected (displayed_cards g, remaining_deck g) of
                                 Inl e \<Rightarrow> Inl e
                               | Inr (board, deck) \<Rightarrow>
                                   Inr (g\<lparr>player_score := player_score g + 1,
                                          displayed_cards := board, remaining_deck := deck,
                                          timer := home_timer g, selected_cards := []\<rparr>))
                            else Inr (g\<lparr>selected_cards := []\<rparr>))))
               else Inr (g\<lparr>selected_cards := selected\<rparr>))
         else Inr g)"

text \<open>The check for the end of the game that closes the branch.\<close>

definition end_check :: "game \<Rightarrow> error + game" where
  "end_check g =
     (case find_all_sets (present (displayed_cards g)) of
        Inl e \<Rightarrow> Inl e
      | Inr sets \<Rightarrow>
          (if sets = [] \<and> remaining_deck g = [] then Inr (g\<lparr>game_state := End\<rparr>)
           else Inr g))"

text \<open>
  The branch \<^verbatim>\<open>elif game_state == "playing"\<close> of the event loop, for one event that
  is not \<^verbatim>\<open>pygame.QUIT\<close>: the tick, then the click, then the check for the end.
\<close>

definition playing_event :: "event \<Rightarrow> game \<Rightarrow> error + game" where
  "playing_event ev g =
     (case (if ev = USEREVENT then on_tick g else Inr g) of
        Inl e \<Rightarrow> Inl e
      | Inr g1 \<Rightarrow>
          (case (case ev of MOUSEBUTTONDOWN mouse_x mouse_y \<Rightarrow> on_click mouse_x mouse_y g1
                 | _ \<Rightarrow> Inr g1) of
             Inl e \<Rightarrow> Inl e
           | Inr g2 \<Rightarrow> end_check g2))"

section \<open>Sample cards and boards\<close>

text \<open>Concrete cards of the deck and small boards, on which the theorems are instantiated.\<close>

definition red1 :: Card where "red1 = mk_card ''red'' ''diamond'' ''empty'' 1"
definition green1 :: Card where "green1 = mk_card ''green'' ''diamond'' ''empty'' 1"
definition purple1 :: Card where "purple1 = mk_card ''purple'' ''diamond'' ''empty'' 1"
definition red2 :: Card where "red2 = mk_card ''red'' ''diamond'' ''empty'' 2"
definition oval2 :: Card where "oval2 = mk_card ''green'' ''oval'' ''filled'' 2"
definition squiggle3 :: Card where "squiggle3 = mk_card ''purple'' ''squiggle'' ''shaded'' 3"

text \<open>
  A full board with a deck of four cards, on which slots 0 and 1 are selected; the board at
  the end of a game, with three cards left that are no set; and a board whose first three
  slots are empty, with a set in slots 3, 4 and 5.
\<close>

definition board_full :: "Card option list" where
  "board_full =
     [Some red1, Some green1, Some purple1, Some red2,
      Some (mk_card ''red'' ''oval'' ''filled'' 1), Some (mk_card ''green'' ''oval'' ''filled'' 1),
      Some (mk_card ''purple'' ''squiggle'' ''empty'' 2), Some (mk_card ''red'' ''squiggle'' ''shaded'' 3),
      Some (mk_card ''green'' ''diamond'' ''shaded'' 2), Some (mk_card ''purple'' ''oval'' ''empty'' 3),
      Some (mk_card ''red'' ''squiggle'' ''filled'' 2), Some (mk_card ''green'' ''squiggle'' ''empty'' 1)]"

definition game_click :: game where
  "game_click =
     \<lparr>game_state = Playing, home_timer = 30, timer = 12, player_score = 0, computer_score = 0,
      displayed_cards = board_full,
      remaining_deck = [oval2, squiggle3, mk_card ''purple'' ''diamond'' ''filled'' 3,
                        mk_card ''red'' ''oval'' ''empty'' 2],
      selected_cards = [0, 1]\<rparr>"



definition board_gaps :: "Card option list" where
  "board_gaps = [None, None, None, Some red1, Some green1, Some purple1,
                 None, None, None, None, None, None]"

definition game_gaps :: game where
  "game_gaps =
     \<lparr>game_state = Playing, home_timer = 30, timer = 1, player_score = 3, computer_score = 0,
      displayed_cards = board_gaps, remaining_deck = [], selected_cards = []\<rparr>"

text \<open>
  A board at the end of the deck with two sets on it, on which the player has selected
  slot 0 and the timer is about to expire, and the state the tick leaves.
\<close>

definition green2 :: Card where "green2 = mk_card ''green'' ''diamond'' ''empty'' 2"
definition purple2 :: Card where "purple2 = mk_card ''purple'' ''diamond'' ''empty'' 2"

definition board_stale :: "Card option list" where
  "board_stale = [Some red1, Some green1, Some purple1, Some red2, Some green2, Some purple2,
                  None, None, None, None, None, None]"

definition game_stale :: game where
  "game_stale =
     \<lparr>game_state = Playing, home_timer = 30, timer = 1, player_score = 15, computer_score = 8,
      displayed_cards = board_stale, remaining_deck = [], selected_cards = [0]\<rparr>"

definition game_stale_ticked :: game where
  "game_stale_ticked =
     \<lparr>game_state = Playing, home_timer = 30, timer = 30, player_score = 15, computer_score = 9,
      displayed_cards = [None, None, None, Some red2, Some green2, Some purple2,
                         None, None, None, None, None, None],
      remaining_deck = [], selected_cards = [0]\<rparr>"

section \<open>Properties\<close>

lemmas sample_defs = red1_def green1_def purple1_def red2_def oval2_def squiggle3_def mk_card_def

lemmas vector_defs = as_vector_def lookup_def colors_def symbols_def shadings_def

subsection \<open>is_set\<close>

lemma upt_4: "[0..<4] = [0, 1, 2, 3]"
  by (simp add: upt_rec)

lemma all_less_4: "(\<forall>i<4. P (i::nat)) \<longleftrightarrow> P 0 \<and> P 1 \<and> P 2 \<and> P 3"
proof
  assume "\<forall>i<4. P i"
  then show "P 0 \<and> P 1 \<and> P 2 \<and> P 3" by simp
next
  assume h: "P 0 \<and> P 1 \<and> P 2 \<and> P 3"
  show "\<forall>i<4. P i"
  proof (intro allI impI)
    fix i :: nat
    assume "i < 4"
    then have "i = 0 \<or> i = 1 \<or> i = 2 \<or> i = 3" by arith
    with h show "P i" by auto
  qed
qed

lemma is_set_loop_all:
  "is_set_loop vs is \<longleftrightarrow> (\<forall>i\<in>set is. card (set (map (\<lambda>v. v ! i) vs)) \<in> {1, 3})"
  by (induction "is") (simp_all add: Let_def)

lemma is_set_vectors:
  assumes "as_vector a = Inr va" "as_vector b = Inr vb" "as_vector c = Inr vc"
  shows "is_set a b c = Inr (\<forall>i<4. card {va ! i, vb ! i, vc ! i} \<in> {1, 3})"
  using assms by (auto simp: is_set_def is_set_loop_all)

lemma is_set_raises:
  "(\<exists>e. is_set a b c = Inl e) \<longleftrightarrow>
   (\<exists>e. as_vector a = Inl e) \<or> (\<exists>e. as_vector b = Inl e) \<or> (\<exists>e. as_vector c = Inl e)"
  by (auto simp: is_set_def split: sum.splits)

lemma as_vector_error: "as_vector c = Inl e \<Longrightarrow> e = KeyError"
  by (auto simp: as_vector_def lookup_def split: sum.splits option.splits)

lemma is_set_samples:
  "is_set red1 green1 purple1 = Inr True"
  "is_set red1 red2 green1 = Inr False"
  by (simp_all add: is_set_def sample_defs vector_defs upt_4 card_insert_if)

text \<open>
  Claim C1. \<open>is_set a b c\<close> returns True exactly when the three cards have vectors and, at
  each of the four positions, the three values are 1 or 3 distinct values; it returns False
  exactly when some position has 2 distinct values.
\<close>

theorem is_set_counts:
  "(is_set a b c = Inr True \<longleftrightarrow>
      (\<exists>va vb vc. as_vector a = Inr va \<and> as_vector b = Inr vb \<and> as_vector c = Inr vc \<and>
         (\<forall>i<4. card {va ! i, vb ! i, vc ! i} = 1 \<or> card {va ! i, vb ! i, vc ! i} = 3)))
   \<and> (is_set a b c = Inr False \<longleftrightarrow>
      (\<exists>va vb vc. as_vector a = Inr va \<and> as_vector b = Inr vb \<and> as_vector c = Inr vc \<and>
         (\<exists>i<4. card {va ! i, vb ! i, vc ! i} = 2)))"
proof -
  have two: "card {x, y, z} \<noteq> 1 \<and> card {x, y, z} \<noteq> 3 \<longleftrightarrow> card {x, y, z} = 2" for x y z :: int
    by (simp add: card_insert_if)
  show ?thesis
  proof (cases "\<exists>va vb vc. as_vector a = Inr va \<and> as_vector b = Inr vb \<and> as_vector c = Inr vc")
    case True
    then obtain va vb vc where v: "as_vector a = Inr va" "as_vector b = Inr vb" "as_vector c = Inr vc"
      by blast
    have "is_set a b c = Inr (\<forall>i<4. card {va ! i, vb ! i, vc ! i} \<in> {1, 3})"
      by (rule is_set_vectors [OF v])
    then show ?thesis using v two by auto
  next
    case False
    then have "\<exists>e. is_set a b c = Inl e"
      unfolding is_set_raises by (metis sum.exhaust sumE)
    with False show ?thesis by auto
  qed
qed

theorem is_set_counts_witness:
  "is_set red1 green1 purple1 = Inr True"
proof -
  have "\<exists>va vb vc. as_vector red1 = Inr va \<and> as_vector green1 = Inr vb
          \<and> as_vector purple1 = Inr vc
          \<and> (\<forall>i<4. card {va ! i, vb ! i, vc ! i} = 1 \<or> card {va ! i, vb ! i, vc ! i} = 3)"
    by (simp add: sample_defs vector_defs all_less_4)
  with is_set_counts [of red1 green1 purple1] show ?thesis by blast
qed

text \<open>
  Claim C8. \<open>is_set\<close> gives the same result (or raises alike) for all six orders of its
  three arguments.
\<close>

theorem is_set_symmetric:
  "is_set a b c = is_set a c b \<and> is_set a b c = is_set b a c \<and> is_set a b c = is_set b c a
   \<and> is_set a b c = is_set c a b \<and> is_set a b c = is_set c b a"
proof -
  have sw12: "is_set x y z = is_set y x z" for x y z
    by (auto simp: is_set_def is_set_loop_all insert_commute split: sum.splits
             dest: as_vector_error)
  have sw23: "is_set x y z = is_set x z y" for x y z
    by (auto simp: is_set_def is_set_loop_all insert_commute split: sum.splits
             dest: as_vector_error)
  show ?thesis
    by (metis sw12 sw23)
qed

subsection \<open>The third card of a set\<close>

lemma in_universe:
  "u \<in> set universe \<longleftrightarrow>
   (\<exists>c\<in>set color_names. \<exists>s\<in>set symbol_names. \<exists>h\<in>set shading_names. \<exists>n\<in>{1, 2, 3}.
      u = mk_card c s h n)"
  unfolding universe_def by (simp add: Bex_def) blast

lemma name_index:
  "c \<in> set color_names \<Longrightarrow> \<exists>z\<in>{0, 1, 2::int}. c = color_names ! nat z"
  "s \<in> set symbol_names \<Longrightarrow> \<exists>z\<in>{0, 1, 2::int}. s = symbol_names ! nat z"
  "h \<in> set shading_names \<Longrightarrow> \<exists>z\<in>{0, 1, 2::int}. h = shading_names ! nat z"
  "n \<in> {1, 2, 3::int} \<Longrightarrow> \<exists>z\<in>{0, 1, 2::int}. n = z + 1"
  by (auto simp: color_names_def symbol_names_def shading_names_def)

lemma index_name:
  "z \<in> {0, 1, 2::int} \<Longrightarrow> color_names ! nat z \<in> set color_names"
  "z \<in> {0, 1, 2::int} \<Longrightarrow> symbol_names ! nat z \<in> set symbol_names"
  "z \<in> {0, 1, 2::int} \<Longrightarrow> shading_names ! nat z \<in> set shading_names"
  "z \<in> {0, 1, 2::int} \<Longrightarrow> z + 1 \<in> {1, 2, 3::int}"
  by (auto simp: color_names_def symbol_names_def shading_names_def)

lemma universe_vectors:
  "u \<in> set universe \<longleftrightarrow>
   (\<exists>z0\<in>{0, 1, 2}. \<exists>z1\<in>{0, 1, 2}. \<exists>z2\<in>{0, 1, 2}. \<exists>z3\<in>{0, 1, 2}.
      u = card_of_vector z0 z1 z2 z3)"
  (is "?L \<longleftrightarrow> ?R")
proof
  assume ?L
  then obtain c s h n where m: "c \<in> set color_names" "s \<in> set symbol_names"
    "h \<in> set shading_names" "n \<in> {1, 2, 3}" and u: "u = mk_card c s h n"
    unfolding in_universe by blast
  from name_index(1) [OF m(1)] obtain z0 where z0: "z0 \<in> {0, 1, 2}" "c = color_names ! nat z0" by blast
  from name_index(2) [OF m(2)] obtain z1 where z1: "z1 \<in> {0, 1, 2}" "s = symbol_names ! nat z1" by blast
  from name_index(3) [OF m(3)] obtain z2 where z2: "z2 \<in> {0, 1, 2}" "h = shading_names ! nat z2" by blast
  from name_index(4) [OF m(4)] obtain z3 where z3: "z3 \<in> {0, 1, 2}" "n = z3 + 1" by blast
  have "u = card_of_vector z0 z1 z2 z3"
    using u z0 z1 z2 z3 by (simp add: card_of_vector_def)
  with z0 z1 z2 z3 show ?R by blast
next
  assume ?R
  then obtain z0 z1 z2 z3 where z: "z0 \<in> {0, 1, 2}" "z1 \<in> {0, 1, 2}" "z2 \<in> {0, 1, 2}"
    "z3 \<in> {0, 1, 2}" and u: "u = card_of_vector z0 z1 z2 z3" by blast
  show ?L
    unfolding in_universe u card_of_vector_def
    using index_name(1) [OF z(1)] index_name(2) [OF z(2)] index_name(3) [OF z(3)]
      index_name(4) [OF z(4)] by blast
qed

lemma as_vector_card_of_vector:
  assumes "z0 \<in> {0, 1, 2}" "z1 \<in> {0, 1, 2}" "z2 \<in> {0, 1, 2}"
  shows "as_vector (card_of_vector z0 z1 z2 z3) = Inr [z0, z1, z2, z3]"
proof -
  have "lookup colors (color_names ! nat z0) = Inr z0"
    using assms(1) by (auto simp: lookup_def colors_def color_names_def)
  moreover have "lookup symbols (symbol_names ! nat z1) = Inr z1"
    using assms(2) by (auto simp: lookup_def symbols_def symbol_names_def)
  moreover have "lookup shadings (shading_names ! nat z2) = Inr z2"
    using assms(3) by (auto simp: lookup_def shadings_def shading_names_def)
  ultimately show ?thesis
    by (simp add: as_vector_def card_of_vector_def mk_card_def)
qed

lemma third_value:
  assumes "x \<in> {0, 1, 2::int}" "y \<in> {0, 1, 2}"
  shows "\<exists>z\<in>{0, 1, 2}. card {x, y, z} \<in> {1, 3}
           \<and> (\<forall>w\<in>{0, 1, 2}. card {x, y, w} \<in> {1, 3} \<longrightarrow> w = z)"
  using assms by (auto simp: card_insert_if)

lemma third_value_same:
  "card {x, y, x} \<in> {1, 3} \<Longrightarrow> x = (y::int)"
  "card {x, y, y} \<in> {1, 3} \<Longrightarrow> x = (y::int)"
  by (auto simp: card_insert_if split: if_splits)

lemma is_set_card_of_vector:
  assumes "x0 \<in> {0, 1, 2}" "x1 \<in> {0, 1, 2}" "x2 \<in> {0, 1, 2}"
    "y0 \<in> {0, 1, 2}" "y1 \<in> {0, 1, 2}" "y2 \<in> {0, 1, 2}"
    "z0 \<in> {0, 1, 2}" "z1 \<in> {0, 1, 2}" "z2 \<in> {0, 1, 2}"
  shows "is_set (card_of_vector x0 x1 x2 x3) (card_of_vector y0 y1 y2 y3)
           (card_of_vector z0 z1 z2 z3) = Inr True \<longleftrightarrow>
         card {x0, y0, z0} \<in> {1, 3} \<and> card {x1, y1, z1} \<in> {1, 3}
         \<and> card {x2, y2, z2} \<in> {1, 3} \<and> card {x3, y3, z3} \<in> {1, 3}"
proof -
  have va: "as_vector (card_of_vector x0 x1 x2 x3) = Inr [x0, x1, x2, x3]"
    using assms(1-3) by (rule as_vector_card_of_vector)
  have vb: "as_vector (card_of_vector y0 y1 y2 y3) = Inr [y0, y1, y2, y3]"
    using assms(4-6) by (rule as_vector_card_of_vector)
  have vc: "as_vector (card_of_vector z0 z1 z2 z3) = Inr [z0, z1, z2, z3]"
    using assms(7-9) by (rule as_vector_card_of_vector)
  show ?thesis
    unfolding is_set_vectors [OF va vb vc] by (simp add: all_less_4)
qed

lemma card_of_vector_inject:
  assumes "x0 \<in> {0, 1, 2}" "x1 \<in> {0, 1, 2}" "x2 \<in> {0, 1, 2}"
    "y0 \<in> {0, 1, 2}" "y1 \<in> {0, 1, 2}" "y2 \<in> {0, 1, 2}"
    "card_of_vector x0 x1 x2 x3 = card_of_vector y0 y1 y2 y3"
  shows "x0 = y0 \<and> x1 = y1 \<and> x2 = y2 \<and> x3 = y3"
proof -
  have "Inr [x0, x1, x2, x3] = as_vector (card_of_vector x0 x1 x2 x3)"
    by (rule as_vector_card_of_vector [OF assms(1-3), symmetric])
  also have "\<dots> = as_vector (card_of_vector y0 y1 y2 y3)"
    by (simp only: assms(7))
  also have "\<dots> = Inr [y0, y1, y2, y3]"
    by (rule as_vector_card_of_vector [OF assms(4-6)])
  finally show ?thesis by simp
qed

text \<open>
  Claim C7. For two cards \<open>a\<close> and \<open>b\<close> of the deck of 81 there is exactly one card
  \<open>c\<close> of the deck with \<open>is_set a b c\<close>, and \<open>c\<close> is \<open>a\<close> or \<open>b\<close> only when
  \<open>a = b\<close>.
\<close>

theorem unique_third_card:
  "a \<in> set universe \<and> b \<in> set universe \<longrightarrow>
     (\<exists>c. c \<in> set universe \<and> is_set a b c = Inr True
        \<and> (\<forall>c'. c' \<in> set universe \<and> is_set a b c' = Inr True \<longrightarrow> c' = c)
        \<and> (c = a \<or> c = b \<longrightarrow> a = b))"
proof
  assume ab: "a \<in> set universe \<and> b \<in> set universe"
  then have "a \<in> set universe" ..
  then obtain x0 x1 x2 x3 where
    x: "x0 \<in> {0, 1, 2}" "x1 \<in> {0, 1, 2}" "x2 \<in> {0, 1, 2}" "x3 \<in> {0, 1, 2}"
    and a: "a = card_of_vector x0 x1 x2 x3"
    unfolding universe_vectors by (elim bexE) (rule that)
  from ab have "b \<in> set universe" ..
  then obtain y0 y1 y2 y3 where
    y: "y0 \<in> {0, 1, 2}" "y1 \<in> {0, 1, 2}" "y2 \<in> {0, 1, 2}" "y3 \<in> {0, 1, 2}"
    and b: "b = card_of_vector y0 y1 y2 y3"
    unfolding universe_vectors by (elim bexE) (rule that)
  from third_value [OF x(1) y(1)] obtain z0 where z0: "z0 \<in> {0, 1, 2}" "card {x0, y0, z0} \<in> {1, 3}"
    "\<forall>w\<in>{0, 1, 2}. card {x0, y0, w} \<in> {1, 3} \<longrightarrow> w = z0"
    by (elim bexE conjE) (rule that)
  from third_value [OF x(2) y(2)] obtain z1 where z1: "z1 \<in> {0, 1, 2}" "card {x1, y1, z1} \<in> {1, 3}"
    "\<forall>w\<in>{0, 1, 2}. card {x1, y1, w} \<in> {1, 3} \<longrightarrow> w = z1"
    by (elim bexE conjE) (rule that)
  from third_value [OF x(3) y(3)] obtain z2 where z2: "z2 \<in> {0, 1, 2}" "card {x2, y2, z2} \<in> {1, 3}"
    "\<forall>w\<in>{0, 1, 2}. card {x2, y2, w} \<in> {1, 3} \<longrightarrow> w = z2"
    by (elim bexE conjE) (rule that)
  from third_value [OF x(4) y(4)] obtain z3 where z3: "z3 \<in> {0, 1, 2}" "card {x3, y3, z3} \<in> {1, 3}"
    "\<forall>w\<in>{0, 1, 2}. card {x3, y3, w} \<in> {1, 3} \<longrightarrow> w = z3"
    by (elim bexE conjE) (rule that)
  define c where "c = card_of_vector z0 z1 z2 z3"
  have cu: "c \<in> set universe"
    unfolding universe_vectors c_def
    by (rule bexI [OF _ z0(1)], rule bexI [OF _ z1(1)], rule bexI [OF _ z2(1)],
        rule bexI [OF _ z3(1)]) (rule refl)
  have cs: "is_set a b c = Inr True"
    unfolding a b c_def
    using is_set_card_of_vector [OF x(1-3) y(1-3) z0(1) z1(1) z2(1), of x3 y3 z3]
      z0(2) z1(2) z2(2) z3(2) by simp
  have uniq: "c' = c" if "c' \<in> set universe \<and> is_set a b c' = Inr True" for c'
  proof -
    from that have "c' \<in> set universe" and s': "is_set a b c' = Inr True" by simp_all
    then obtain w0 w1 w2 w3 where
      w: "w0 \<in> {0, 1, 2}" "w1 \<in> {0, 1, 2}" "w2 \<in> {0, 1, 2}" "w3 \<in> {0, 1, 2}"
      and c': "c' = card_of_vector w0 w1 w2 w3"
      unfolding universe_vectors by (elim bexE) (rule that)
    have k: "card {x0, y0, w0} \<in> {1, 3} \<and> card {x1, y1, w1} \<in> {1, 3}
         \<and> card {x2, y2, w2} \<in> {1, 3} \<and> card {x3, y3, w3} \<in> {1, 3}"
      using s' unfolding a b c' is_set_card_of_vector [OF x(1-3) y(1-3) w(1-3)] .
    have "w0 = z0" using z0(3) [rule_format, OF w(1)] k by (elim conjE)
    moreover have "w1 = z1" using z1(3) [rule_format, OF w(2)] k by (elim conjE)
    moreover have "w2 = z2" using z2(3) [rule_format, OF w(3)] k by (elim conjE)
    moreover have "w3 = z3" using z3(3) [rule_format, OF w(4)] k by (elim conjE)
    ultimately show ?thesis by (simp only: c' c_def)
  qed
  have same: "a = b" if "c = a \<or> c = b"
  proof -
    from that have "(z0 = x0 \<and> z1 = x1 \<and> z2 = x2 \<and> z3 = x3)
        \<or> (z0 = y0 \<and> z1 = y1 \<and> z2 = y2 \<and> z3 = y3)"
      unfolding a b c_def
      by (elim disjE)
        (rule disjI1, erule card_of_vector_inject [OF z0(1) z1(1) z2(1) x(1-3)],
         rule disjI2, erule card_of_vector_inject [OF z0(1) z1(1) z2(1) y(1-3)])
    then show ?thesis
    proof
      assume e: "z0 = x0 \<and> z1 = x1 \<and> z2 = x2 \<and> z3 = x3"
      have "x0 = y0" using z0(2) e by (intro third_value_same(1)) simp
      moreover have "x1 = y1" using z1(2) e by (intro third_value_same(1)) simp
      moreover have "x2 = y2" using z2(2) e by (intro third_value_same(1)) simp
      moreover have "x3 = y3" using z3(2) e by (intro third_value_same(1)) simp
      ultimately show ?thesis by (simp add: a b)
    next
      assume e: "z0 = y0 \<and> z1 = y1 \<and> z2 = y2 \<and> z3 = y3"
      have "x0 = y0" using z0(2) e by (intro third_value_same(2)) simp
      moreover have "x1 = y1" using z1(2) e by (intro third_value_same(2)) simp
      moreover have "x2 = y2" using z2(2) e by (intro third_value_same(2)) simp
      moreover have "x3 = y3" using z3(2) e by (intro third_value_same(2)) simp
      ultimately show ?thesis by (simp add: a b)
    qed
  qed
  show "\<exists>c. c \<in> set universe \<and> is_set a b c = Inr True
        \<and> (\<forall>c'. c' \<in> set universe \<and> is_set a b c' = Inr True \<longrightarrow> c' = c)
        \<and> (c = a \<or> c = b \<longrightarrow> a = b)"
  proof (intro exI [of _ c] conjI allI impI)
    show "c \<in> set universe" by (rule cu)
    show "is_set a b c = Inr True" by (rule cs)
    show "c' = c" if "c' \<in> set universe \<and> is_set a b c' = Inr True" for c'
      using that by (rule uniq)
    show "a = b" if "c = a \<or> c = b" using that by (rule same)
  qed
qed

lemma samples_in_universe:
  "red1 \<in> set universe" "green1 \<in> set universe" "purple1 \<in> set universe"
  by (simp_all add: in_universe red1_def green1_def purple1_def color_names_def symbol_names_def
      shading_names_def mk_card_def)

theorem unique_third_card_witness:
  "red1 \<in> set universe \<and> green1 \<in> set universe \<and> is_set red1 green1 purple1 = Inr True
   \<and> purple1 \<noteq> red1 \<and> purple1 \<noteq> green1"
proof -
  have m: "red1 \<in> set universe \<and> green1 \<in> set universe"
    by (simp add: samples_in_universe)
  from unique_third_card [of red1 green1] m obtain c where
    c: "\<forall>c'. c' \<in> set universe \<and> is_set red1 green1 c' = Inr True \<longrightarrow> c' = c"
       "c = red1 \<or> c = green1 \<longrightarrow> red1 = green1"
    by blast
  have "purple1 = c"
    using c(1) [rule_format, of purple1] samples_in_universe(3) is_set_samples(1) by simp
  moreover have "red1 \<noteq> green1" by (simp add: sample_defs)
  ultimately show ?thesis using c(2) m is_set_samples(1) by blast
qed

subsection \<open>replace_cards\<close>

lemma replace_cards_IndexError:
  "\<exists>i\<in>set indices. \<not> i < length board \<Longrightarrow>
   replace_cards indices (board, deck) = Inl IndexError"
proof (induction indices arbitrary: board deck)
  case Nil
  then show ?case by simp
next
  case (Cons idx rest)
  show ?case
  proof (cases "idx < length board")
    case False
    then show ?thesis by (cases deck) simp_all
  next
    case True
    with Cons.prems have r: "\<exists>i\<in>set rest. \<not> i < length board" by auto
    show ?thesis
    proof (cases deck)
      case Nil
      have "\<exists>i\<in>set rest. \<not> i < length (board[idx := None])" using r by simp
      from Cons.IH [OF this] True Nil show ?thesis by simp
    next
      case (Cons c deck')
      have "\<exists>i\<in>set rest. \<not> i < length (board[idx := Some c])" using r by simp
      from Cons.IH [OF this] True Cons show ?thesis by simp
    qed
  qed
qed

lemma replace_cards_in_range:
  "(\<forall>i\<in>set indices. i < length board) \<longrightarrow>
   (\<exists>board'. replace_cards indices (board, deck) = Inr (board', drop (length indices) deck)
      \<and> length board' = length board
      \<and> (\<forall>n<length indices. (\<forall>m. n < m \<and> m < length indices \<longrightarrow> indices ! m \<noteq> indices ! n) \<longrightarrow>
            board' ! (indices ! n) = (if n < length deck then Some (deck ! n) else None))
      \<and> (\<forall>p<length board. p \<notin> set indices \<longrightarrow> board' ! p = board ! p))"
proof (induction indices arbitrary: board deck)
  case Nil
  show ?case by simp
next
  case (Cons idx rest)
  show ?case
  proof
    assume inr: "\<forall>i\<in>set (idx # rest). i < length board"
    define v where "v = (case deck of [] \<Rightarrow> None | c # _ \<Rightarrow> Some c)"
    define board1 where "board1 = board[idx := v]"
    have step: "replace_cards (idx # rest) (board, deck) = replace_cards rest (board1, tl deck)"
      using inr by (cases deck) (simp_all add: board1_def v_def)
    have "\<forall>i\<in>set rest. i < length board1" using inr by (simp add: board1_def)
    with Cons.IH [of board1 "tl deck"] obtain board' where
      r: "replace_cards rest (board1, tl deck) = Inr (board', drop (length rest) (tl deck))"
      and l: "length board' = length board1"
      and w: "\<forall>n<length rest. (\<forall>m. n < m \<and> m < length rest \<longrightarrow> rest ! m \<noteq> rest ! n) \<longrightarrow>
            board' ! (rest ! n) = (if n < length (tl deck) then Some (tl deck ! n) else None)"
      and u: "\<forall>p<length board1. p \<notin> set rest \<longrightarrow> board' ! p = board1 ! p"
      by blast
    have v0: "v = (if 0 < length deck then Some (deck ! 0) else None)"
      by (cases deck) (simp_all add: v_def)
    have a: "replace_cards (idx # rest) (board, deck) = Inr (board', drop (length (idx # rest)) deck)"
      using step r by (simp add: drop_Suc)
    have b: "length board' = length board" using l by (simp add: board1_def)
    have c: "board' ! ((idx # rest) ! n) = (if n < length deck then Some (deck ! n) else None)"
      if n: "n < length (idx # rest)"
      and last: "\<forall>m. n < m \<and> m < length (idx # rest) \<longrightarrow> (idx # rest) ! m \<noteq> (idx # rest) ! n" for n
    proof (cases n)
      case 0
      have "idx \<notin> set rest"
      proof
        assume "idx \<in> set rest"
        then obtain m where "m < length rest" "rest ! m = idx" by (auto simp: in_set_conv_nth)
        with last 0 show False by (auto dest: spec [of _ "Suc m"])
      qed
      moreover have "idx < length board1" using inr by (simp add: board1_def)
      ultimately have "board' ! idx = board1 ! idx" using u by blast
      also have "\<dots> = v" using inr by (simp add: board1_def)
      finally show ?thesis using 0 v0 by simp
    next
      case (Suc n')
      have "n' < length rest" using n Suc by simp
      moreover have "\<forall>m. n' < m \<and> m < length rest \<longrightarrow> rest ! m \<noteq> rest ! n'"
      proof (intro allI impI)
        fix m assume "n' < m \<and> m < length rest"
        with last [rule_format, of "Suc m"] Suc show "rest ! m \<noteq> rest ! n'" by simp
      qed
      ultimately have "board' ! (rest ! n') = (if n' < length (tl deck) then Some (tl deck ! n') else None)"
        using w by blast
      then show ?thesis using Suc by (cases deck) (auto simp: nth_tl)
    qed
    have d: "board' ! p = board ! p" if "p < length board" "p \<notin> set (idx # rest)" for p
    proof -
      have "board' ! p = board1 ! p" using u that by (simp add: board1_def)
      then show ?thesis using that by (simp add: board1_def)
    qed
    show "\<exists>board'. replace_cards (idx # rest) (board, deck) = Inr (board', drop (length (idx # rest)) deck)
      \<and> length board' = length board
      \<and> (\<forall>n<length (idx # rest). (\<forall>m. n < m \<and> m < length (idx # rest) \<longrightarrow> (idx # rest) ! m \<noteq> (idx # rest) ! n) \<longrightarrow>
            board' ! ((idx # rest) ! n) = (if n < length deck then Some (deck ! n) else None))
      \<and> (\<forall>p<length board. p \<notin> set (idx # rest) \<longrightarrow> board' ! p = board ! p)"
      using a b c d by blast
  qed
qed


text \<open>
  Claim C3. For indices within the board, \<open>replace_cards\<close> takes one card from the front of
  the deck for each index, in order, for as long as the deck lasts: the slot of the \<open>n\<close>-th
  index (when no later index names the same slot) gets the \<open>n\<close>-th card of the deck, or
  becomes empty when the deck has no \<open>n\<close>-th card; the other slots are unchanged. An
  index outside the board raises IndexError.
\<close>

theorem replace_cards_spec:
  "((\<forall>i\<in>set indices. i < length board) \<longrightarrow>
     (\<exists>board'. replace_cards indices (board, deck) = Inr (board', drop (length indices) deck)
        \<and> length board' = length board
        \<and> (\<forall>n<length indices.
              (\<forall>m. n < m \<and> m < length indices \<longrightarrow> indices ! m \<noteq> indices ! n) \<longrightarrow>
              board' ! (indices ! n) = (if n < length deck then Some (deck ! n) else None))
        \<and> (\<forall>p<length board. p \<notin> set indices \<longrightarrow> board' ! p = board ! p)))
   \<and> (\<not> (\<forall>i\<in>set indices. i < length board) \<longrightarrow>
        replace_cards indices (board, deck) = Inl IndexError)"
proof (intro conjI impI)
  assume "\<forall>i\<in>set indices. i < length board"
  with replace_cards_in_range [of indices board deck]
  show "\<exists>board'. replace_cards indices (board, deck) = Inr (board', drop (length indices) deck)
        \<and> length board' = length board
        \<and> (\<forall>n<length indices.
              (\<forall>m. n < m \<and> m < length indices \<longrightarrow> indices ! m \<noteq> indices ! n) \<longrightarrow>
              board' ! (indices ! n) = (if n < length deck then Some (deck ! n) else None))
        \<and> (\<forall>p<length board. p \<notin> set indices \<longrightarrow> board' ! p = board ! p)"
    by (rule mp)
next
  assume "\<not> (\<forall>i\<in>set indices. i < length board)"
  then have "\<exists>i\<in>set indices. \<not> i < length board" by simp
  then show "replace_cards indices (board, deck) = Inl IndexError"
    by (rule replace_cards_IndexError)
qed

theorem replace_cards_spec_witness:
  "replace_cards [0, 1, 2] ([Some red1, Some green1, Some purple1, Some red2], [oval2])
   = Inr ([Some oval2, None, None, Some red2], [])"
  using replace_cards_spec [of "[0, 1, 2]" "[Some red1, Some green1, Some purple1, Some red2]"
          "[oval2]"]
  by simp

subsection \<open>find_one_set and find_all_sets\<close>

lemma scan_None:
  assumes nil: "scan [] = Inr None"
    and cons: "\<And>x xs. scan (x # xs) =
       (case inner x of Inl e \<Rightarrow> Inl e | Inr (Some t) \<Rightarrow> Inr (Some t) | Inr None \<Rightarrow> scan xs)"
  shows "scan xs = Inr None \<longleftrightarrow> (\<forall>x\<in>set xs. inner x = Inr None)"
  by (induction xs) (auto simp: nil cons split: sum.splits option.splits)

lemma scan_Some:
  fixes xs :: "nat list"
  assumes nil: "scan [] = Inr None"
    and cons: "\<And>x xs. scan (x # xs) =
       (case inner x of Inl e \<Rightarrow> Inl e | Inr (Some t) \<Rightarrow> Inr (Some t) | Inr None \<Rightarrow> scan xs)"
    and sorted: "sorted_wrt (<) xs"
  shows "scan xs = Inr (Some t) \<longleftrightarrow>
    (\<exists>x\<in>set xs. inner x = Inr (Some t) \<and> (\<forall>y\<in>set xs. y < x \<longrightarrow> inner y = Inr None))"
  using sorted
proof (induction xs)
  case Nil
  show ?case by (simp add: nil)
next
  case (Cons x xs)
  then have IH: "scan xs = Inr (Some t) \<longleftrightarrow>
      (\<exists>x\<in>set xs. inner x = Inr (Some t) \<and> (\<forall>y\<in>set xs. y < x \<longrightarrow> inner y = Inr None))"
    and lt: "\<forall>y\<in>set xs. x < y" by simp_all
  show ?case
  proof (cases "inner x")
    case (Inl e)
    with lt show ?thesis by (auto simp: cons dest: less_asym)
  next
    case (Inr r)
    show ?thesis
    proof (cases r)
      case None
      with Inr lt IH show ?thesis by (auto simp: cons dest: less_asym)
    next
      case (Some t')
      with Inr lt show ?thesis by (auto simp: cons dest: less_asym)
    qed
  qed
qed

lemma find_one_k_cons:
  "find_one_k cards i j (k # ks) =
     (case (case is_set (cards ! i) (cards ! j) (cards ! k) of Inl e \<Rightarrow> Inl e
            | Inr b \<Rightarrow> Inr (if b then Some (i, j, k) else None)) of
        Inl e \<Rightarrow> Inl e | Inr (Some t) \<Rightarrow> Inr (Some t) | Inr None \<Rightarrow> find_one_k cards i j ks)"
  by (simp split: sum.splits)

lemma inner_k_None:
  "(case is_set a b c of Inl e \<Rightarrow> Inl e | Inr b \<Rightarrow> Inr (if b then Some t else None)) = Inr None
   \<longleftrightarrow> is_set a b c = Inr False"
  by (auto split: sum.splits)

lemma inner_k_Some:
  "(case is_set a b c of Inl e \<Rightarrow> Inl e | Inr b \<Rightarrow> Inr (if b then Some t else None)) = Inr (Some t')
   \<longleftrightarrow> is_set a b c = Inr True \<and> t' = t"
  by (auto split: sum.splits)

lemma ball_upt: "(\<forall>k\<in>set [Suc j..<n]. P k) \<longleftrightarrow> (\<forall>k. j < k \<and> k < n \<longrightarrow> P k)"
  by (auto simp: Suc_le_eq)

lemma bex_upt: "(\<exists>k\<in>set [Suc j..<n]. P k) \<longleftrightarrow> (\<exists>k. j < k \<and> k < n \<and> P k)"
  by (auto simp: Suc_le_eq)

lemma ball_upt0: "(\<forall>k\<in>set [0..<n]. P k) \<longleftrightarrow> (\<forall>k. k < n \<longrightarrow> P k)"
  by auto

lemma bex_upt0: "(\<exists>k\<in>set [0..<n]. P k) \<longleftrightarrow> (\<exists>k. k < n \<and> P k)"
  by auto

lemma find_one_k_upt_None:
  "find_one_k cards i j [Suc j..<length cards] = Inr None \<longleftrightarrow>
   (\<forall>k. j < k \<and> k < length cards \<longrightarrow> is_set (cards ! i) (cards ! j) (cards ! k) = Inr False)"
proof -
  have "find_one_k cards i j [Suc j..<length cards] = Inr None \<longleftrightarrow>
    (\<forall>k\<in>set [Suc j..<length cards].
       (case is_set (cards ! i) (cards ! j) (cards ! k) of Inl e \<Rightarrow> Inl e
        | Inr b \<Rightarrow> Inr (if b then Some (i, j, k) else None)) = Inr None)"
    by (rule scan_None [where scan = "find_one_k cards i j", OF _ find_one_k_cons]) simp
  then show ?thesis
    unfolding inner_k_None ball_upt .
qed

lemma find_one_k_upt_Some:
  "find_one_k cards i j [Suc j..<length cards] = Inr (Some t) \<longleftrightarrow>
   (\<exists>k. j < k \<and> k < length cards \<and>
      (is_set (cards ! i) (cards ! j) (cards ! k) = Inr True \<and> t = (i, j, k))
      \<and> (\<forall>k'. j < k' \<and> k' < length cards \<longrightarrow> k' < k \<longrightarrow>
            is_set (cards ! i) (cards ! j) (cards ! k') = Inr False))"
proof -
  have "find_one_k cards i j [Suc j..<length cards] = Inr (Some t) \<longleftrightarrow>
    (\<exists>k\<in>set [Suc j..<length cards].
       (case is_set (cards ! i) (cards ! j) (cards ! k) of Inl e \<Rightarrow> Inl e
        | Inr b \<Rightarrow> Inr (if b then Some (i, j, k) else None)) = Inr (Some t)
       \<and> (\<forall>k'\<in>set [Suc j..<length cards]. k' < k \<longrightarrow>
            (case is_set (cards ! i) (cards ! j) (cards ! k') of Inl e \<Rightarrow> Inl e
             | Inr b \<Rightarrow> Inr (if b then Some (i, j, k') else None)) = Inr None))"
    by (rule scan_Some [where scan = "find_one_k cards i j", OF _ find_one_k_cons]) simp_all
  then show ?thesis
    unfolding inner_k_None inner_k_Some ball_upt bex_upt .
qed

lemma find_one_j_upt_None:
  "find_one_j cards i [Suc i..<length cards] = Inr None \<longleftrightarrow>
   (\<forall>j. i < j \<and> j < length cards \<longrightarrow> (\<forall>k. j < k \<and> k < length cards \<longrightarrow>
      is_set (cards ! i) (cards ! j) (cards ! k) = Inr False))"
proof -
  have "find_one_j cards i [Suc i..<length cards] = Inr None \<longleftrightarrow>
    (\<forall>j\<in>set [Suc i..<length cards]. find_one_k cards i j [Suc j..<length cards] = Inr None)"
    by (rule scan_None [where scan = "find_one_j cards i"]) simp_all
  then show ?thesis
    unfolding find_one_k_upt_None ball_upt .
qed

lemma find_one_j_upt_Some:
  "find_one_j cards i [Suc i..<length cards] = Inr (Some t) \<longleftrightarrow>
   (\<exists>j. i < j \<and> j < length cards \<and>
      (\<exists>k. j < k \<and> k < length cards \<and>
        (is_set (cards ! i) (cards ! j) (cards ! k) = Inr True \<and> t = (i, j, k))
        \<and> (\<forall>k'. j < k' \<and> k' < length cards \<longrightarrow> k' < k \<longrightarrow>
              is_set (cards ! i) (cards ! j) (cards ! k') = Inr False))
      \<and> (\<forall>j'. i < j' \<and> j' < length cards \<longrightarrow> j' < j \<longrightarrow>
            (\<forall>k'. j' < k' \<and> k' < length cards \<longrightarrow>
               is_set (cards ! i) (cards ! j') (cards ! k') = Inr False)))"
proof -
  have "find_one_j cards i [Suc i..<length cards] = Inr (Some t) \<longleftrightarrow>
    (\<exists>j\<in>set [Suc i..<length cards]. find_one_k cards i j [Suc j..<length cards] = Inr (Some t)
       \<and> (\<forall>j'\<in>set [Suc i..<length cards]. j' < j \<longrightarrow>
            find_one_k cards i j' [Suc j'..<length cards] = Inr None))"
    by (rule scan_Some [where scan = "find_one_j cards i"]) simp_all
  then show ?thesis
    unfolding find_one_k_upt_None find_one_k_upt_Some ball_upt bex_upt .
qed

lemma find_one_set_None_raw:
  "find_one_set cards = Inr None \<longleftrightarrow>
   (\<forall>i. i < length cards \<longrightarrow> (\<forall>j. i < j \<and> j < length cards \<longrightarrow>
      (\<forall>k. j < k \<and> k < length cards \<longrightarrow>
        is_set (cards ! i) (cards ! j) (cards ! k) = Inr False)))"
proof -
  have "find_one_i cards [0..<length cards] = Inr None \<longleftrightarrow>
    (\<forall>i\<in>set [0..<length cards]. find_one_j cards i [Suc i..<length cards] = Inr None)"
    by (rule scan_None [where scan = "find_one_i cards"]) simp_all
  then show ?thesis
    unfolding find_one_j_upt_None find_one_set_def ball_upt0 .
qed

lemma find_one_set_Some_raw:
  "find_one_set cards = Inr (Some t) \<longleftrightarrow>
   (\<exists>i. i < length cards \<and>
     (\<exists>j. i < j \<and> j < length cards \<and>
      (\<exists>k. j < k \<and> k < length cards \<and>
        (is_set (cards ! i) (cards ! j) (cards ! k) = Inr True \<and> t = (i, j, k))
        \<and> (\<forall>k'. j < k' \<and> k' < length cards \<longrightarrow> k' < k \<longrightarrow>
              is_set (cards ! i) (cards ! j) (cards ! k') = Inr False))
      \<and> (\<forall>j'. i < j' \<and> j' < length cards \<longrightarrow> j' < j \<longrightarrow>
            (\<forall>k'. j' < k' \<and> k' < length cards \<longrightarrow>
               is_set (cards ! i) (cards ! j') (cards ! k') = Inr False)))
     \<and> (\<forall>i'. i' < length cards \<longrightarrow> i' < i \<longrightarrow>
          (\<forall>j'. i' < j' \<and> j' < length cards \<longrightarrow> (\<forall>k'. j' < k' \<and> k' < length cards \<longrightarrow>
             is_set (cards ! i') (cards ! j') (cards ! k') = Inr False))))"
proof -
  have "find_one_i cards [0..<length cards] = Inr (Some t) \<longleftrightarrow>
    (\<exists>i\<in>set [0..<length cards]. find_one_j cards i [Suc i..<length cards] = Inr (Some t)
       \<and> (\<forall>i'\<in>set [0..<length cards]. i' < i \<longrightarrow>
            find_one_j cards i' [Suc i'..<length cards] = Inr None))"
    by (rule scan_Some [where scan = "find_one_i cards"]) simp_all
  then show ?thesis
    unfolding find_one_j_upt_None find_one_j_upt_Some find_one_set_def ball_upt0 bex_upt0 .
qed


lemma find_one_set_None:
  "find_one_set cards = Inr None \<longleftrightarrow>
     (\<forall>i j k. i < j \<and> j < k \<and> k < length cards
        \<longrightarrow> is_set (cards ! i) (cards ! j) (cards ! k) = Inr False)"
  (is "?L \<longleftrightarrow> ?R")
proof
  assume l: ?L
  show ?R
  proof (intro allI impI)
    fix i j k
    assume h: "i < j \<and> j < k \<and> k < length cards"
    then have "i < length cards" "i < j \<and> j < length cards" "j < k \<and> k < length cards"
      by simp_all
    with l [unfolded find_one_set_None_raw]
    show "is_set (cards ! i) (cards ! j) (cards ! k) = Inr False" by simp
  qed
next
  assume r: ?R
  show ?L
    unfolding find_one_set_None_raw
  proof (intro allI impI)
    fix i j k
    assume "i < length cards" "i < j \<and> j < length cards" "j < k \<and> k < length cards"
    then have "i < j \<and> j < k \<and> k < length cards" by simp
    with r show "is_set (cards ! i) (cards ! j) (cards ! k) = Inr False" by simp
  qed
qed

lemma find_one_set_Some:
  "find_one_set cards = Inr (Some (i, j, k)) \<longleftrightarrow>
      i < j \<and> j < k \<and> k < length cards
      \<and> is_set (cards ! i) (cards ! j) (cards ! k) = Inr True
      \<and> (\<forall>i' j' k'. i' < j' \<and> j' < k' \<and> k' < length cards \<and> lex_less (i', j', k') (i, j, k)
            \<longrightarrow> is_set (cards ! i') (cards ! j') (cards ! k') = Inr False)"
  (is "?L \<longleftrightarrow> ?R")
proof
  let ?F = "\<lambda>i j k. is_set (cards ! i) (cards ! j) (cards ! k) = Inr False"
  let ?n = "length cards"
  assume ?L
  then obtain i0 j0 k0 where
    b: "i0 < ?n" "i0 < j0" "j0 < ?n" "j0 < k0" "k0 < ?n"
    and s: "is_set (cards ! i0) (cards ! j0) (cards ! k0) = Inr True"
    and e: "(i, j, k) = (i0, j0, k0)"
    and fk: "\<forall>k'. j0 < k' \<and> k' < ?n \<longrightarrow> k' < k0 \<longrightarrow> ?F i0 j0 k'"
    and fj: "\<forall>j'. i0 < j' \<and> j' < ?n \<longrightarrow> j' < j0 \<longrightarrow> (\<forall>k'. j' < k' \<and> k' < ?n \<longrightarrow> ?F i0 j' k')"
    and fi: "\<forall>i'. i' < ?n \<longrightarrow> i' < i0 \<longrightarrow>
               (\<forall>j'. i' < j' \<and> j' < ?n \<longrightarrow> (\<forall>k'. j' < k' \<and> k' < ?n \<longrightarrow> ?F i' j' k'))"
    unfolding find_one_set_Some_raw by (elim exE conjE) (rule that)
  have eq: "i0 = i" "j0 = j" "k0 = k" using e by simp_all
  have "?F i' j' k'"
    if h: "i' < j' \<and> j' < k' \<and> k' < ?n \<and> lex_less (i', j', k') (i, j, k)" for i' j' k'
  proof -
    have bi: "i' < ?n" and bj: "j' < ?n" using h by simp_all
    consider "i' < i" | "i' = i" "j' < j" | "i' = i" "j' = j" "k' < k"
      using h by (auto simp: lex_less_def)
    then show ?thesis
    proof cases
      case 1
      then show ?thesis using fi [rule_format, of i' j' k'] eq bi bj h by simp
    next
      case 2
      then show ?thesis using fj [rule_format, of j' k'] eq bj h by simp
    next
      case 3
      then show ?thesis using fk [rule_format, of k'] eq h by simp
    qed
  qed
  then show ?R using b s eq by simp
next
  let ?F = "\<lambda>i j k. is_set (cards ! i) (cards ! j) (cards ! k) = Inr False"
  let ?n = "length cards"
  assume r: ?R
  then have b: "i < j" "j < k" "k < ?n"
    and s: "is_set (cards ! i) (cards ! j) (cards ! k) = Inr True"
    and f: "\<forall>i' j' k'. i' < j' \<and> j' < k' \<and> k' < ?n \<and> lex_less (i', j', k') (i, j, k)
               \<longrightarrow> ?F i' j' k'"
    by simp_all
  have fk: "\<forall>k'. j < k' \<and> k' < ?n \<longrightarrow> k' < k \<longrightarrow> ?F i j k'"
  proof (intro allI impI)
    fix k' assume "j < k' \<and> k' < ?n" "k' < k"
    then show "?F i j k'" using f [rule_format, of i j k'] b by (simp add: lex_less_def)
  qed
  have fj: "\<forall>j'. i < j' \<and> j' < ?n \<longrightarrow> j' < j \<longrightarrow> (\<forall>k'. j' < k' \<and> k' < ?n \<longrightarrow> ?F i j' k')"
  proof (intro allI impI)
    fix j' k' assume "i < j' \<and> j' < ?n" "j' < j" "j' < k' \<and> k' < ?n"
    then show "?F i j' k'" using f [rule_format, of i j' k'] by (simp add: lex_less_def)
  qed
  have fi: "\<forall>i'. i' < ?n \<longrightarrow> i' < i \<longrightarrow>
               (\<forall>j'. i' < j' \<and> j' < ?n \<longrightarrow> (\<forall>k'. j' < k' \<and> k' < ?n \<longrightarrow> ?F i' j' k'))"
  proof (intro allI impI)
    fix i' j' k' assume "i' < ?n" "i' < i" "i' < j' \<and> j' < ?n" "j' < k' \<and> k' < ?n"
    then show "?F i' j' k'" using f [rule_format, of i' j' k'] by (simp add: lex_less_def)
  qed
  have bi: "i < ?n" and bj: "j < ?n" using b by simp_all
  show ?L
    unfolding find_one_set_Some_raw
    apply (rule exI [of _ i], rule conjI [OF bi])
    apply (rule conjI [OF _ fi])
    apply (rule exI [of _ j], rule conjI [OF b(1)], rule conjI [OF bj])
    apply (rule conjI [OF _ fj])
    apply (rule exI [of _ k])
    using b s fk apply simp
    done
qed

lemma first_opt_append:
  "first_opt (xs @ ys) = (case first_opt xs of Some t \<Rightarrow> Some t | None \<Rightarrow> first_opt ys)"
  by (cases xs) (simp_all add: first_opt_def)

lemma find_all_k_one:
  "find_all_k cards i j ks acc = Inr r \<Longrightarrow>
   \<exists>new. r = acc @ new \<and> find_one_k cards i j ks = Inr (first_opt new)"
proof (induction ks arbitrary: acc)
  case Nil
  then show ?case by (simp add: first_opt_def)
next
  case (Cons k ks)
  show ?case
  proof (cases "is_set (cards ! i) (cards ! j) (cards ! k)")
    case (Inl e)
    with Cons.prems show ?thesis by simp
  next
    case (Inr b)
    show ?thesis
    proof (cases b)
      case True
      with Inr Cons.prems have "find_all_k cards i j ks (acc @ [(i, j, k)]) = Inr r" by simp
      from Cons.IH [OF this] obtain new where "r = (acc @ [(i, j, k)]) @ new" by blast
      then have "r = acc @ ((i, j, k) # new)" by simp
      with Inr True show ?thesis by (auto simp: first_opt_def)
    next
      case False
      with Inr Cons.prems have "find_all_k cards i j ks acc = Inr r" by simp
      from Cons.IH [OF this] Inr False show ?thesis by simp
    qed
  qed
qed

lemma find_all_j_one:
  "find_all_j cards i js acc = Inr r \<Longrightarrow>
   \<exists>new. r = acc @ new \<and> find_one_j cards i js = Inr (first_opt new)"
proof (induction js arbitrary: acc)
  case Nil
  then show ?case by (simp add: first_opt_def)
next
  case (Cons j js)
  from Cons.prems obtain r1 where
    r1: "find_all_k cards i j [j + 1..<length cards] acc = Inr r1"
    and r: "find_all_j cards i js r1 = Inr r"
    by (auto split: sum.splits)
  from find_all_k_one [OF r1] obtain new1 where
    n1: "r1 = acc @ new1" "find_one_k cards i j [j + 1..<length cards] = Inr (first_opt new1)"
    by blast
  from Cons.IH [OF r] obtain new2 where
    n2: "r = r1 @ new2" "find_one_j cards i js = Inr (first_opt new2)"
    by blast
  have "r = acc @ (new1 @ new2)" using n1 n2 by simp
  moreover have "find_one_j cards i (j # js) = Inr (first_opt (new1 @ new2))"
    using n1 n2 by (simp add: first_opt_append split: option.splits)
  ultimately show ?case by blast
qed

lemma find_all_i_one:
  "find_all_i cards is acc = Inr r \<Longrightarrow>
   \<exists>new. r = acc @ new \<and> find_one_i cards is = Inr (first_opt new)"
proof (induction "is" arbitrary: acc)
  case Nil
  then show ?case by (simp add: first_opt_def)
next
  case (Cons i "is")
  from Cons.prems obtain r1 where
    r1: "find_all_j cards i [i + 1..<length cards] acc = Inr r1"
    and r: "find_all_i cards is r1 = Inr r"
    by (auto split: sum.splits)
  from find_all_j_one [OF r1] obtain new1 where
    n1: "r1 = acc @ new1" "find_one_j cards i [i + 1..<length cards] = Inr (first_opt new1)"
    by blast
  from Cons.IH [OF r] obtain new2 where
    n2: "r = r1 @ new2" "find_one_i cards is = Inr (first_opt new2)"
    by blast
  have "r = acc @ (new1 @ new2)" using n1 n2 by simp
  moreover have "find_one_i cards (i # is) = Inr (first_opt (new1 @ new2))"
    using n1 n2 by (simp add: first_opt_append split: option.splits)
  ultimately show ?case by blast
qed

lemma find_one_k_all:
  "find_one_k cards i j ks = Inr None \<Longrightarrow> find_all_k cards i j ks acc = Inr acc"
  by (induction ks) (auto split: sum.splits if_splits)

lemma find_one_j_all:
  "find_one_j cards i js = Inr None \<Longrightarrow> find_all_j cards i js acc = Inr acc"
  by (induction js) (auto split: sum.splits option.splits simp: find_one_k_all)

lemma find_one_i_all:
  "find_one_i cards is = Inr None \<Longrightarrow> find_all_i cards is acc = Inr acc"
  by (induction "is") (auto split: sum.splits option.splits simp: find_one_j_all)

lemma is_set_total:
  "has_vector a \<Longrightarrow> has_vector b \<Longrightarrow> has_vector c \<Longrightarrow> \<exists>r. is_set a b c = Inr r"
  by (auto simp: has_vector_def is_set_def)

lemma find_all_k_total:
  assumes "\<forall>c\<in>set cards. has_vector c" "i < length cards" "j < length cards"
    "\<forall>k\<in>set ks. k < length cards"
  shows "\<exists>r. find_all_k cards i j ks acc = Inr r"
  using assms(4)
proof (induction ks arbitrary: acc)
  case Nil
  show ?case by simp
next
  case (Cons k ks)
  have "\<exists>b. is_set (cards ! i) (cards ! j) (cards ! k) = Inr b"
    using assms(1-3) Cons.prems by (intro is_set_total) simp_all
  then obtain b where "is_set (cards ! i) (cards ! j) (cards ! k) = Inr b" ..
  with Cons show ?case by simp
qed

lemma find_all_j_total:
  assumes "\<forall>c\<in>set cards. has_vector c" "i < length cards" "\<forall>j\<in>set js. j < length cards"
  shows "\<exists>r. find_all_j cards i js acc = Inr r"
  using assms(3)
proof (induction js arbitrary: acc)
  case Nil
  show ?case by simp
next
  case (Cons j js)
  have "\<exists>r. find_all_k cards i j [j + 1..<length cards] acc = Inr r"
    using assms(1,2) Cons.prems by (intro find_all_k_total) simp_all
  then obtain r where "find_all_k cards i j [j + 1..<length cards] acc = Inr r" ..
  with Cons show ?case by simp
qed

lemma find_all_i_total:
  assumes "\<forall>c\<in>set cards. has_vector c" "\<forall>i\<in>set is. i < length cards"
  shows "\<exists>r. find_all_i cards is acc = Inr r"
  using assms(2)
proof (induction "is" arbitrary: acc)
  case Nil
  show ?case by simp
next
  case (Cons i "is")
  have "\<exists>r. find_all_j cards i [i + 1..<length cards] acc = Inr r"
    using assms(1) Cons.prems by (intro find_all_j_total) simp_all
  then obtain r where "find_all_j cards i [i + 1..<length cards] acc = Inr r" ..
  with Cons show ?case by simp
qed

text \<open>
  Claim C4. \<open>find_one_set\<close> returns the triple \<open>(i, j, k)\<close> exactly when
  \<open>i < j < k\<close> are indices of the list, the three cards are a set, and every triple of
  increasing indices that is lexicographically smaller is not a set; it returns nothing
  exactly when no triple of increasing indices is a set, and always on fewer than three
  cards. It returns (a triple or nothing) whenever every card has a vector.
\<close>

theorem find_one_set_first:
  "(find_one_set cards = Inr (Some (i, j, k)) \<longleftrightarrow>
      i < j \<and> j < k \<and> k < length cards
      \<and> is_set (cards ! i) (cards ! j) (cards ! k) = Inr True
      \<and> (\<forall>i' j' k'. i' < j' \<and> j' < k' \<and> k' < length cards \<and> lex_less (i', j', k') (i, j, k)
            \<longrightarrow> is_set (cards ! i') (cards ! j') (cards ! k') = Inr False))
   \<and> (find_one_set cards = Inr None \<longleftrightarrow>
      (\<forall>i j k. i < j \<and> j < k \<and> k < length cards
         \<longrightarrow> is_set (cards ! i) (cards ! j) (cards ! k) = Inr False))
   \<and> (length cards < 3 \<longrightarrow> find_one_set cards = Inr None)
   \<and> ((\<forall>c\<in>set cards. \<exists>v. as_vector c = Inr v) \<longrightarrow> (\<exists>r. find_one_set cards = Inr r))"
proof (intro conjI)
  show "(\<forall>c\<in>set cards. \<exists>v. as_vector c = Inr v) \<longrightarrow> (\<exists>r. find_one_set cards = Inr r)"
  proof
    assume "\<forall>c\<in>set cards. \<exists>v. as_vector c = Inr v"
    then have "\<forall>c\<in>set cards. has_vector c" by (simp add: has_vector_def)
    then have "\<exists>sets. find_all_i cards [0..<length cards] [] = Inr sets"
      by (intro find_all_i_total) simp_all
    then obtain sets where "find_all_i cards [0..<length cards] [] = Inr sets" ..
    from find_all_i_one [OF this] show "\<exists>r. find_one_set cards = Inr r"
      unfolding find_one_set_def by blast
  qed
next
  show "length cards < 3 \<longrightarrow> find_one_set cards = Inr None"
  proof
    assume "length cards < 3"
    then have "\<not> (i < j \<and> j < k \<and> k < length cards)" for i j k :: nat by arith
    then show "find_one_set cards = Inr None"
      unfolding find_one_set_None by blast
  qed
qed (rule find_one_set_Some find_one_set_None)+


theorem find_one_set_first_witness:
  "find_one_set [red1, red2, green1, purple1] = Inr (Some (0, 2, 3))
   \<and> is_set red1 red2 green1 = Inr False
   \<and> find_one_set [red1, green1] = Inr None"
proof -
  have a: "find_one_set [red1, red2, green1, purple1] = Inr (Some (0, 2, 3))"
    by (simp add: find_one_set_def is_set_def sample_defs vector_defs upt_4 card_insert_if)
  have l: "(0::nat) < 1 \<and> (1::nat) < 2 \<and> 2 < length [red1, red2, green1, purple1]
             \<and> lex_less (0, 1, 2) (0, 2, 3)"
    by (simp add: lex_less_def)
  from a find_one_set_first [of "[red1, red2, green1, purple1]" 0 2 3]
  have "\<forall>i' j' k'. i' < j' \<and> j' < k' \<and> k' < length [red1, red2, green1, purple1]
           \<and> lex_less (i', j', k') (0, 2, 3)
          \<longrightarrow> is_set ([red1, red2, green1, purple1] ! i') ([red1, red2, green1, purple1] ! j')
                ([red1, red2, green1, purple1] ! k') = Inr False"
    by blast
  from this [rule_format, OF l]
  have "is_set red1 red2 green1 = Inr False" by simp
  moreover have "find_one_set [red1, green1] = Inr None"
    using find_one_set_first [of "[red1, green1]" 0 0 0] by simp
  ultimately show ?thesis using a by simp
qed

text \<open>
  Claim C10. When \<open>find_all_sets\<close> returns a list, \<open>find_one_set\<close> returns its first
  element, or nothing when the list is empty; \<open>find_one_set\<close> returns nothing exactly when
  \<open>find_all_sets\<close> returns the empty list; and \<open>find_all_sets\<close> returns a list whenever
  every card has a vector.
\<close>

theorem find_one_set_find_all_sets:
  "(\<forall>sets. find_all_sets cards = Inr sets \<longrightarrow>
      find_one_set cards = Inr (case sets of [] \<Rightarrow> None | t # _ \<Rightarrow> Some t))
   \<and> (find_one_set cards = Inr None \<longleftrightarrow> find_all_sets cards = Inr [])
   \<and> ((\<forall>c\<in>set cards. \<exists>v. as_vector c = Inr v) \<longrightarrow> (\<exists>sets. find_all_sets cards = Inr sets))"
proof (intro conjI allI impI)
  fix sets
  assume "find_all_sets cards = Inr sets"
  then show "find_one_set cards = Inr (case sets of [] \<Rightarrow> None | t # _ \<Rightarrow> Some t)"
    unfolding find_all_sets_def find_one_set_def
    by (auto dest!: find_all_i_one simp: first_opt_def)
next
  show "find_one_set cards = Inr None \<longleftrightarrow> find_all_sets cards = Inr []"
    unfolding find_all_sets_def find_one_set_def
    by (auto dest!: find_all_i_one simp: first_opt_def find_one_i_all)
next
  assume "\<forall>c\<in>set cards. \<exists>v. as_vector c = Inr v"
  then have "\<forall>c\<in>set cards. has_vector c" by (simp add: has_vector_def)
  then show "\<exists>sets. find_all_sets cards = Inr sets"
    unfolding find_all_sets_def by (intro find_all_i_total) simp_all
qed


theorem find_one_set_find_all_sets_witness:
  "find_all_sets [red1, red2, green1, purple1] = Inr [(0, 2, 3)]
   \<and> find_one_set [red1, red2, green1, purple1] = Inr (Some (0, 2, 3))"
proof -
  have a: "find_all_sets [red1, red2, green1, purple1] = Inr [(0, 2, 3)]"
    by (simp add: find_all_sets_def is_set_def sample_defs vector_defs upt_4 card_insert_if)
  with find_one_set_find_all_sets [of "[red1, red2, green1, purple1]"]
  have "find_one_set [red1, red2, green1, purple1]
          = Inr (case [(0, 2, 3)] of [] \<Rightarrow> None | t # _ \<Rightarrow> Some t)"
    by blast
  with a show ?thesis by simp
qed

subsection \<open>Reading the deck\<close>

lemma attributes_mk_card: "attributes (mk_card c s h n) = (c, s, h, n)"
  by (simp add: attributes_def mk_card_def)

lemma attributes_universe:
  "map attributes universe =
     List.product color_names (List.product symbol_names (List.product shading_names [1, 2, 3]))"
  by (simp add: universe_def product_concat_map map_concat comp_def attributes_mk_card)

lemma distinct_attributes_universe: "distinct (map attributes universe)"
  unfolding attributes_universe
  by (intro distinct_product) (simp_all add: color_names_def symbol_names_def shading_names_def)

lemma set_attributes_universe:
  "set (map attributes universe) =
     set color_names \<times> set symbol_names \<times> set shading_names \<times> {1, 2, 3}"
  unfolding attributes_universe by simp

lemma length_universe: "length universe = 81"
proof -
  have "length (map attributes universe) = 81"
    unfolding attributes_universe
    by (simp add: color_names_def symbol_names_def shading_names_def)
  then show ?thesis by simp
qed

lemma from_filename_all:
  "\<forall>c\<in>set color_names. \<forall>s\<in>set symbol_names. \<forall>h\<in>set shading_names. \<forall>n\<in>{1, 2, 3}.
     from_filename (filename (mk_card c s h n)) = Inr (mk_card c s h n)"
  by (simp add: color_names_def symbol_names_def shading_names_def from_filename_def
      split_def lookup_def color_map_def int_of_char_def mk_card_def digit_def)

lemma from_filename_universe:
  assumes "u \<in> set universe"
  shows "from_filename (filename u) = Inr u"
proof -
  from assms obtain c s h n where m: "c \<in> set color_names" "s \<in> set symbol_names"
    "h \<in> set shading_names" "n \<in> {1, 2, 3}" and u: "u = mk_card c s h n"
    unfolding in_universe by (elim bexE) (rule that)
  show ?thesis
    unfolding u by (rule from_filename_all [rule_format, OF m])
qed

lemma load_cards_map:
  "\<forall>f\<in>set (filter (\<lambda>f. endswith f ''.gif'') fs). from_filename f = Inr (g f) \<Longrightarrow>
   load_cards_from_folder fs = Inr (map g (filter (\<lambda>f. endswith f ''.gif'') fs))"
  by (induction fs) simp_all

lemma endswith_kaarten: "f \<in> set kaarten \<Longrightarrow> endswith f ''.gif''"
  by (auto simp: kaarten_def in_universe mk_card_def endswith_def)

lemma load_cards_iff:
  "load_cards_from_folder card_files = Inr cards \<longleftrightarrow>
   map from_filename (filter (\<lambda>f. endswith f ''.gif'') card_files) = map Inr cards"
proof (induction card_files arbitrary: cards)
  case Nil
  show ?case by auto
next
  case (Cons f fs)
  show ?case
  proof (cases "endswith f ''.gif''")
    case False
    with Cons show ?thesis by simp
  next
    case True
    show ?thesis
    proof (cases "from_filename f")
      case (Inl e)
      with True show ?thesis by (cases cards) simp_all
    next
      case (Inr c)
      show ?thesis
      proof (cases "load_cards_from_folder fs")
        case (Inl e)
        then have "map from_filename (filter (\<lambda>f. endswith f ''.gif'') fs) \<noteq> map Inr cs" for cs
          using Cons.IH [of cs] by simp
        with True Inr Inl show ?thesis by (cases cards) simp_all
      next
        case r: (Inr cs)
        then have m: "map from_filename (filter (\<lambda>f. endswith f ''.gif'') fs) = map Inr cs"
          using Cons.IH [of cs] by simp
        have "inj (Inr :: Card \<Rightarrow> error + Card)" by (simp add: inj_def)
        then have "map Inr cs = (map Inr cs' :: (error + Card) list) \<longleftrightarrow> cs = cs'" for cs'
          by (simp add: inj_map_eq_map)
        with True Inr r m show ?thesis by (cases cards) auto
      qed
    qed
  qed
qed

lemma load_cards_raises:
  "(\<exists>e. load_cards_from_folder card_files = Inl e) \<longleftrightarrow>
   (\<exists>f\<in>set (filter (\<lambda>f. endswith f ''.gif'') card_files). \<exists>e. from_filename f = Inl e)"
proof (induction card_files)
  case Nil
  show ?case by simp
next
  case (Cons f fs)
  show ?case
  proof (cases "endswith f ''.gif''")
    case False
    with Cons show ?thesis by simp
  next
    case True
    show ?thesis
    proof (cases "from_filename f")
      case (Inl e)
      with True show ?thesis by auto
    next
      case (Inr c)
      with True Cons show ?thesis by (cases "load_cards_from_folder fs") auto
    qed
  qed
qed

lemma load_cards_deck_81:
  assumes "distinct (filter (\<lambda>f. endswith f ''.gif'') card_files)"
    and "set (filter (\<lambda>f. endswith f ''.gif'') card_files) = set kaarten"
  shows "\<exists>deck. load_cards_from_folder card_files = Inr deck
           \<and> map filename deck = filter (\<lambda>f. endswith f ''.gif'') card_files
           \<and> set deck = set universe
           \<and> length deck = 81
           \<and> distinct (map attributes deck)
           \<and> set (map attributes deck) =
               set color_names \<times> set symbol_names \<times> set shading_names \<times> {1, 2, 3}"
proof -
  define fl where "fl = filter (\<lambda>f. endswith f ''.gif'') card_files"
  define g where "g = (\<lambda>f. projr (from_filename f))"
  have gu: "g (filename u) = u" if "u \<in> set universe" for u
    using from_filename_universe [OF that] by (simp add: g_def)
  have fg: "from_filename f = Inr (g f)" if "f \<in> set kaarten" for f
  proof -
    from that obtain u where "u \<in> set universe" "f = filename u"
      by (auto simp: kaarten_def)
    then show ?thesis using from_filename_universe [of u] gu [of u] by simp
  qed
  have load: "load_cards_from_folder card_files = Inr (map g fl)"
    unfolding fl_def using assms(2) fg by (intro load_cards_map) simp
  have img: "(attributes \<circ> g) ` set kaarten = set (map attributes universe)"
    unfolding kaarten_def using gu by (force simp: image_iff)
  have inj: "inj_on (attributes \<circ> g) (set kaarten)"
  proof (rule inj_on_inverseI)
    fix f assume "f \<in> set kaarten"
    then obtain u where u: "u \<in> set universe" "f = filename u"
      by (auto simp: kaarten_def)
    then obtain c s h n where "u = mk_card c s h n"
      unfolding in_universe by blast
    then show "(\<lambda>(c, s, h, n). filename (mk_card c s h n)) ((attributes \<circ> g) f) = f"
      using u gu [of u] by (simp add: attributes_mk_card)
  qed
  have d: "distinct (map attributes (map g fl))"
    using assms(1) inj assms(2) by (simp add: distinct_map fl_def comp_def)
  have s: "set (map attributes (map g fl)) = set (map attributes universe)"
    using img assms(2) by (simp add: fl_def image_comp)
  have "length (map attributes (map g fl)) = card (set (map attributes (map g fl)))"
    using d by (rule distinct_card [symmetric])
  also have "\<dots> = card (set (map attributes universe))" by (simp only: s)
  also have "\<dots> = length (map attributes universe)"
    using distinct_attributes_universe by (rule distinct_card)
  finally have l: "length (map g fl) = 81" by (simp add: length_universe)
  have s': "set (map attributes (map g fl)) =
      set color_names \<times> set symbol_names \<times> set shading_names \<times> {1, 2, 3}"
    unfolding s by (rule set_attributes_universe)
  have gf: "filename (g f) = f" if "f \<in> set fl" for f
  proof -
    from that assms(2) obtain u where "u \<in> set universe" "f = filename u"
      by (auto simp: kaarten_def fl_def)
    then show ?thesis using gu [of u] by simp
  qed
  have "map (\<lambda>f. filename (g f)) fl = fl"
    by (rule map_idI) (rule gf)
  then have mf: "map filename (map g fl) = filter (\<lambda>f. endswith f ''.gif'') card_files"
    by (simp add: fl_def comp_def)
  have "g ` set kaarten = set universe"
    unfolding kaarten_def using gu by (force simp: image_iff)
  then have su: "set (map g fl) = set universe"
    using assms(2) by (simp add: fl_def)
  show ?thesis
    by (intro exI [of _ "map g fl"] conjI) (rule load mf su l d s')+
qed

lemma distinct_kaarten: "distinct kaarten"
proof -
  have "distinct universe"
    using distinct_attributes_universe by (simp add: distinct_map)
  moreover have "inj_on filename (set universe)"
    by (rule inj_on_inverseI [where g = "\<lambda>f. projr (from_filename f)"])
       (simp add: from_filename_universe)
  ultimately show ?thesis by (simp add: kaarten_def distinct_map)
qed

text \<open>
  Claim C9, as the code has it. \<open>load_cards_from_folder\<close> returns the cards that
  \<open>from_filename\<close> reads from the names ending in \<^verbatim>\<open>.gif\<close> that the folder lists, in
  the order of the listing, and it raises exactly when \<open>from_filename\<close> rejects one of
  them; it does not count the cards. When those names are the 81 names of the deck, each
  once and in any order, it returns 81 cards: the card of each listed name, in the order of
  the listing, which are the cards of the deck, no two with the same four attributes, and
  every combination of color, symbol, shading and number is among them.
\<close>

theorem load_cards_deck:
  "(load_cards_from_folder card_files = Inr cards \<longleftrightarrow>
      map from_filename (filter (\<lambda>f. endswith f ''.gif'') card_files) = map Inr cards)
   \<and> ((\<exists>e. load_cards_from_folder card_files = Inl e) \<longleftrightarrow>
      (\<exists>f\<in>set (filter (\<lambda>f. endswith f ''.gif'') card_files). \<exists>e. from_filename f = Inl e))
   \<and> (distinct (filter (\<lambda>f. endswith f ''.gif'') card_files)
        \<and> set (filter (\<lambda>f. endswith f ''.gif'') card_files) = set kaarten \<longrightarrow>
      (\<exists>deck. load_cards_from_folder card_files = Inr deck
         \<and> map filename deck = filter (\<lambda>f. endswith f ''.gif'') card_files
         \<and> set deck = set universe
         \<and> length deck = 81
         \<and> distinct (map attributes deck)
         \<and> set (map attributes deck) =
             set color_names \<times> set symbol_names \<times> set shading_names \<times> {1, 2, 3}))"
proof (intro conjI impI)
  show "load_cards_from_folder card_files = Inr cards \<longleftrightarrow>
      map from_filename (filter (\<lambda>f. endswith f ''.gif'') card_files) = map Inr cards"
    by (rule load_cards_iff)
  show "(\<exists>e. load_cards_from_folder card_files = Inl e) \<longleftrightarrow>
      (\<exists>f\<in>set (filter (\<lambda>f. endswith f ''.gif'') card_files). \<exists>e. from_filename f = Inl e)"
    by (rule load_cards_raises)
next
  assume h: "distinct (filter (\<lambda>f. endswith f ''.gif'') card_files)
        \<and> set (filter (\<lambda>f. endswith f ''.gif'') card_files) = set kaarten"
  show "\<exists>deck. load_cards_from_folder card_files = Inr deck
         \<and> map filename deck = filter (\<lambda>f. endswith f ''.gif'') card_files
         \<and> set deck = set universe
         \<and> length deck = 81
         \<and> distinct (map attributes deck)
         \<and> set (map attributes deck) =
             set color_names \<times> set symbol_names \<times> set shading_names \<times> {1, 2, 3}"
    by (rule load_cards_deck_81 [OF conjunct1 [OF h] conjunct2 [OF h]])
qed

theorem load_cards_deck_witness:
  "\<exists>deck. load_cards_from_folder (''README.md'' # rev kaarten) = Inr deck
      \<and> map filename deck = rev kaarten \<and> length deck = 81"
proof -
  have "filter (\<lambda>f. endswith f ''.gif'') kaarten = kaarten"
    by (simp add: filter_id_conv endswith_kaarten)
  then have "filter (\<lambda>f. endswith f ''.gif'') (rev kaarten) = rev kaarten"
    by (simp add: rev_filter [symmetric])
  then have f: "filter (\<lambda>f. endswith f ''.gif'') (''README.md'' # rev kaarten) = rev kaarten"
    by (simp add: endswith_def)
  have h: "distinct (filter (\<lambda>f. endswith f ''.gif'') (''README.md'' # rev kaarten))
      \<and> set (filter (\<lambda>f. endswith f ''.gif'') (''README.md'' # rev kaarten)) = set kaarten"
    unfolding f by (simp add: distinct_kaarten)
  from load_cards_deck [of "''README.md'' # rev kaarten" "[]", THEN conjunct2, THEN conjunct2,
      THEN mp, OF h]
  have "\<exists>deck. load_cards_from_folder (''README.md'' # rev kaarten) = Inr deck
         \<and> map filename deck = filter (\<lambda>f. endswith f ''.gif'') (''README.md'' # rev kaarten)
         \<and> set deck = set universe
         \<and> length deck = 81
         \<and> distinct (map attributes deck)
         \<and> set (map attributes deck) =
             set color_names \<times> set symbol_names \<times> set shading_names \<times> {1, 2, 3}"
    .
  then show ?thesis unfolding f by blast
qed

text \<open>
  Claim C9 as it is stated fails: the deck is what the folder holds, and a folder with one
  image gives a deck of one card.
\<close>

theorem load_cards_not_always_81:
  "load_cards_from_folder [''redsquiggleempty3.gif''] = Inr [mk_card ''red'' ''squiggle'' ''empty'' 3]
   \<and> length [mk_card ''red'' ''squiggle'' ''empty'' 3] \<noteq> 81"
  by (simp add: endswith_def from_filename_def split_def lookup_def color_map_def
      int_of_char_def mk_card_def digit_def)

subsection \<open>The game loop\<close>

lemma replace_cards_length:
  "replace_cards indices (board, deck) = Inr (board', deck') \<Longrightarrow> length board' = length board"
  by (induction indices arbitrary: board deck) (auto split: list.splits if_splits)








lemma slots_at_three:
  "i1 < length board \<Longrightarrow> i2 < length board \<Longrightarrow> i3 < length board \<Longrightarrow>
   slots_at board [i1, i2, i3] = Inr [board ! i1, board ! i2, board ! i3]"
  by simp

lemma is_set_slots_Some: "is_set_slots [Some a, Some b, Some c] = is_set a b c"
  by (simp add: is_set_slots_def is_set_def as_vector_slot_def cong: sum.case_cong)

lemma set_toggle:
  "distinct sel \<Longrightarrow>
   set (toggle i sel) = (if i \<in> set sel then set sel - {i} else insert i (set sel))"
  by (simp add: toggle_def)

lemma on_click_miss:
  assumes "ci = (y div 200) * 4 + x div 250"
    and "\<not> (0 \<le> ci \<and> ci < int (length (displayed_cards g)) \<and> displayed_cards g ! nat ci \<noteq> None)"
  shows "on_click x y g = Inr g"
  unfolding on_click_def Let_def assms(1) [symmetric]
  by (rule if_not_P) (rule assms(2))

lemma on_click_hit:
  assumes "ci = (y div 200) * 4 + x div 250"
    and "0 \<le> ci \<and> ci < int (length (displayed_cards g)) \<and> displayed_cards g ! nat ci \<noteq> None"
    and "toggle (nat ci) (selected_cards g) = sel"
  shows "on_click x y g =
    (if length sel = 3 then
       (case slots_at (displayed_cards g) sel of
          Inl e \<Rightarrow> Inl e
        | Inr cards \<Rightarrow>
            (case is_set_slots cards of
               Inl e \<Rightarrow> Inl e
             | Inr b \<Rightarrow>
                 (if b then
                    (case replace_cards sel (displayed_cards g, remaining_deck g) of
                       Inl e \<Rightarrow> Inl e
                     | Inr (board, deck) \<Rightarrow>
                         Inr (g\<lparr>player_score := player_score g + 1,
                                displayed_cards := board, remaining_deck := deck,
                                timer := home_timer g, selected_cards := []\<rparr>))
                  else Inr (g\<lparr>selected_cards := []\<rparr>))))
     else Inr (g\<lparr>selected_cards := sel\<rparr>))"
  unfolding on_click_def Let_def assms(1) [symmetric] assms(3)
  by (rule if_P) (rule assms(2))

lemma playing_event_click:
  "playing_event (MOUSEBUTTONDOWN x y) g =
     (case on_click x y g of Inl e \<Rightarrow> Inl e | Inr g2 \<Rightarrow> end_check g2)"
  by (simp add: playing_event_def)

text \<open>
  The click handler when the slots it evaluates hold cards. A click on the slot \<open>ci\<close>
  changes nothing when the slot is off the board or empty. Otherwise the index is removed
  from the selection when it is there and appended when it is not; a selection that does
  not have three indices is kept; a selection of three slots holding the cards \<open>a\<close>,
  \<open>b\<close>, \<open>c\<close> is evaluated: when they are a set the player scores, the three slots are
  replaced and the timer is reset, and in both cases the selection is emptied. The check
  for the end of the game follows.
\<close>

lemma click_selection:
  assumes ci: "ci = (y div 200) * 4 + x div 250"
    and sel: "sel = (if nat ci \<in> set (selected_cards g) then remove1 (nat ci) (selected_cards g)
                     else selected_cards g @ [nat ci])"
  shows
   "(\<not> (0 \<le> ci \<and> ci < int (length (displayed_cards g)) \<and> displayed_cards g ! nat ci \<noteq> None)
       \<longrightarrow> playing_event (MOUSEBUTTONDOWN x y) g = end_check g)
    \<and> (0 \<le> ci \<and> ci < int (length (displayed_cards g)) \<and> displayed_cards g ! nat ci \<noteq> None
       \<longrightarrow>
        (length sel \<noteq> 3 \<longrightarrow>
           playing_event (MOUSEBUTTONDOWN x y) g = end_check (g\<lparr>selected_cards := sel\<rparr>))
      \<and> (sel = [i1, i2, i3] \<and> i1 < length (displayed_cards g)
            \<and> i2 < length (displayed_cards g) \<and> i3 < length (displayed_cards g)
            \<and> displayed_cards g ! i1 = Some a \<and> displayed_cards g ! i2 = Some b
            \<and> displayed_cards g ! i3 = Some c
          \<longrightarrow>
            (is_set a b c = Inr True
              \<and> replace_cards sel (displayed_cards g, remaining_deck g) = Inr (board, deck)
              \<longrightarrow> playing_event (MOUSEBUTTONDOWN x y) g =
                    end_check (g\<lparr>player_score := player_score g + 1,
                                 displayed_cards := board, remaining_deck := deck,
                                 timer := home_timer g, selected_cards := []\<rparr>))
          \<and> (is_set a b c = Inr False
              \<longrightarrow> playing_event (MOUSEBUTTONDOWN x y) g =
                    end_check (g\<lparr>selected_cards := []\<rparr>))))"
proof (intro conjI impI)
  assume "\<not> (0 \<le> ci \<and> ci < int (length (displayed_cards g)) \<and> displayed_cards g ! nat ci \<noteq> None)"
  then show "playing_event (MOUSEBUTTONDOWN x y) g = end_check g"
    unfolding playing_event_click by (simp add: on_click_miss [OF ci])
next
  assume h: "0 \<le> ci \<and> ci < int (length (displayed_cards g)) \<and> displayed_cards g ! nat ci \<noteq> None"
    and n: "length sel \<noteq> 3"
  have t: "toggle (nat ci) (selected_cards g) = sel"
    using sel by (simp add: toggle_def)
  show "playing_event (MOUSEBUTTONDOWN x y) g = end_check (g\<lparr>selected_cards := sel\<rparr>)"
    unfolding playing_event_click on_click_hit [OF ci h t]
    using n by simp
next
  assume h: "0 \<le> ci \<and> ci < int (length (displayed_cards g)) \<and> displayed_cards g ! nat ci \<noteq> None"
    and s: "sel = [i1, i2, i3] \<and> i1 < length (displayed_cards g)
            \<and> i2 < length (displayed_cards g) \<and> i3 < length (displayed_cards g)
            \<and> displayed_cards g ! i1 = Some a \<and> displayed_cards g ! i2 = Some b
            \<and> displayed_cards g ! i3 = Some c"
    and v: "is_set a b c = Inr True
            \<and> replace_cards sel (displayed_cards g, remaining_deck g) = Inr (board, deck)"
  have t: "toggle (nat ci) (selected_cards g) = sel"
    using sel by (simp add: toggle_def)
  have sl: "slots_at (displayed_cards g) sel = Inr [Some a, Some b, Some c]"
    using s by simp
  have l: "length sel = 3" using s by simp
  show "playing_event (MOUSEBUTTONDOWN x y) g =
          end_check (g\<lparr>player_score := player_score g + 1,
                       displayed_cards := board, remaining_deck := deck,
                       timer := home_timer g, selected_cards := []\<rparr>)"
    unfolding playing_event_click on_click_hit [OF ci h t]
    using v by (simp add: l sl is_set_slots_Some)
next
  assume h: "0 \<le> ci \<and> ci < int (length (displayed_cards g)) \<and> displayed_cards g ! nat ci \<noteq> None"
    and s: "sel = [i1, i2, i3] \<and> i1 < length (displayed_cards g)
            \<and> i2 < length (displayed_cards g) \<and> i3 < length (displayed_cards g)
            \<and> displayed_cards g ! i1 = Some a \<and> displayed_cards g ! i2 = Some b
            \<and> displayed_cards g ! i3 = Some c"
    and v: "is_set a b c = Inr False"
  have t: "toggle (nat ci) (selected_cards g) = sel"
    using sel by (simp add: toggle_def)
  have sl: "slots_at (displayed_cards g) sel = Inr [Some a, Some b, Some c]"
    using s by simp
  have l: "length sel = 3" using s by simp
  show "playing_event (MOUSEBUTTONDOWN x y) g = end_check (g\<lparr>selected_cards := []\<rparr>)"
    unfolding playing_event_click on_click_hit [OF ci h t]
    using v by (simp add: l sl is_set_slots_Some)
qed

lemma click_selection_full_board:
  "playing_event (MOUSEBUTTONDOWN 600 50) game_click =
     end_check (game_click\<lparr>player_score := 1,
        displayed_cards := board_full[0 := Some oval2, 1 := Some squiggle3,
                                      2 := Some (mk_card ''purple'' ''diamond'' ''filled'' 3)],
        remaining_deck := [mk_card ''red'' ''oval'' ''empty'' 2],
        timer := 30, selected_cards := []\<rparr>)"
proof -
  have ci: "(2::int) = (50 div 200) * 4 + 600 div 250" by simp
  have sel: "[0, 1, 2] = (if nat 2 \<in> set (selected_cards game_click)
                          then remove1 (nat 2) (selected_cards game_click)
                          else selected_cards game_click @ [nat 2])"
    by (simp add: game_click_def)
  have h: "0 \<le> (2::int) \<and> 2 < int (length (displayed_cards game_click))
           \<and> displayed_cards game_click ! nat 2 \<noteq> None"
    by (simp add: game_click_def board_full_def)
  have s: "[0, 1, 2] = [0, 1, 2::nat] \<and> 0 < length (displayed_cards game_click)
           \<and> 1 < length (displayed_cards game_click) \<and> 2 < length (displayed_cards game_click)
           \<and> displayed_cards game_click ! 0 = Some red1
           \<and> displayed_cards game_click ! 1 = Some green1
           \<and> displayed_cards game_click ! 2 = Some purple1"
    by (simp add: game_click_def board_full_def)
  have r: "is_set red1 green1 purple1 = Inr True
           \<and> replace_cards [0, 1, 2] (displayed_cards game_click, remaining_deck game_click)
             = Inr (board_full[0 := Some oval2, 1 := Some squiggle3,
                               2 := Some (mk_card ''purple'' ''diamond'' ''filled'' 3)],
                    [mk_card ''red'' ''oval'' ''empty'' 2])"
    by (simp add: is_set_samples game_click_def board_full_def)
  from click_selection [OF ci sel, THEN conjunct2, rule_format, OF h, THEN conjunct2,
      rule_format, OF s, THEN conjunct1, rule_format, OF r]
  show ?thesis by (simp add: game_click_def)
qed

lemma is_set_stale: "is_set red2 green2 purple2 = Inr True"
  by (simp add: is_set_def sample_defs green2_def purple2_def vector_defs upt_4 card_insert_if)

lemma find_one_stale:
  "find_one_set [red1, green1, purple1, red2, green2, purple2] = Inr (Some (0, 1, 2))"
  by (simp add: find_one_set_def is_set_samples)

lemma find_all_stale: "find_all_sets [red2, green2, purple2] = Inr [(0, 1, 2)]"
  by (simp add: find_all_sets_def is_set_stale)

text \<open>
  Claim C6 does not hold when a selected slot has been emptied. The tick replaces slots
  without touching the selection: with slot 0 selected and the deck exhausted, the opponent
  takes the set in slots 0, 1, 2 and slot 0 stays selected though it is empty. A click on
  slot 3 selects it, and the click on slot 4 that brings the selection to three raises
  AttributeError in \<open>is_set\<close>: nothing is evaluated and the selection is not emptied.
\<close>

theorem click_on_stale_selection:
  "playing_event USEREVENT game_stale = Inr game_stale_ticked
   \<and> selected_cards game_stale_ticked = [0]
   \<and> displayed_cards game_stale_ticked ! 0 = None
   \<and> playing_event (MOUSEBUTTONDOWN 800 50) game_stale_ticked
       = Inr (game_stale_ticked\<lparr>selected_cards := [0, 3]\<rparr>)
   \<and> playing_event (MOUSEBUTTONDOWN 50 250) (game_stale_ticked\<lparr>selected_cards := [0, 3]\<rparr>)
       = Inl AttributeError"
proof (intro conjI)
  show "playing_event USEREVENT game_stale = Inr game_stale_ticked"
    by (simp add: playing_event_def on_tick_def end_check_def game_stale_def board_stale_def
        game_stale_ticked_def present_def find_one_stale find_all_stale)
  show "selected_cards game_stale_ticked = [0]"
    by (simp add: game_stale_ticked_def)
  show "displayed_cards game_stale_ticked ! 0 = None"
    by (simp add: game_stale_ticked_def)
  show "playing_event (MOUSEBUTTONDOWN 800 50) game_stale_ticked
       = Inr (game_stale_ticked\<lparr>selected_cards := [0, 3]\<rparr>)"
    by (simp add: playing_event_def on_click_def toggle_def end_check_def game_stale_ticked_def
        present_def find_all_stale)
  show "playing_event (MOUSEBUTTONDOWN 50 250) (game_stale_ticked\<lparr>selected_cards := [0, 3]\<rparr>)
       = Inl AttributeError"
    by (simp add: playing_event_def on_click_def toggle_def game_stale_ticked_def
        is_set_slots_def as_vector_slot_def)
qed

lemma on_tick_running:
  "\<not> timer g - 1 \<le> 0 \<Longrightarrow> on_tick g = Inr (g\<lparr>timer := timer g - 1\<rparr>)"
  by (simp add: on_tick_def Let_def)

lemma on_tick_expired_none:
  assumes "timer g - 1 \<le> 0" "find_one_set (present (displayed_cards g)) = Inr None"
    "replace_cards [0, 1, 2] (displayed_cards g, remaining_deck g) = Inr (board, deck)"
  shows "on_tick g = Inr (g\<lparr>timer := home_timer g, displayed_cards := board,
                            remaining_deck := deck\<rparr>)"
  using assms by (simp add: on_tick_def Let_def)

lemma on_tick_expired_found:
  assumes "timer g - 1 \<le> 0" "find_one_set (present (displayed_cards g)) = Inr (Some (i, j, k))"
    "replace_cards [i, j, k] (displayed_cards g, remaining_deck g) = Inr (board, deck)"
  shows "on_tick g = Inr (g\<lparr>timer := home_timer g, computer_score := computer_score g + 1,
                            displayed_cards := board, remaining_deck := deck\<rparr>)"
  using assms by (simp add: on_tick_def Let_def)

lemma present_full:
  assumes "None \<notin> set board"
  shows "present board = map the board"
proof -
  have "filter (\<lambda>card. card \<noteq> None) board = board"
  proof (intro filter_True ballI)
    fix x assume "x \<in> set board"
    with assms show "x \<noteq> None" by metis
  qed
  then show ?thesis by (simp only: present_def)
qed

lemma find_one_gaps: "find_one_set [red1, green1, purple1] = Inr (Some (0, 1, 2))"
  by (simp add: find_one_set_def is_set_samples)

lemma find_all_gaps: "find_all_sets [red1, green1, purple1] = Inr [(0, 1, 2)]"
  by (simp add: find_all_sets_def is_set_samples)

text \<open>
  Claim C2 does not hold when an empty slot precedes the set found. \<open>find_one_set\<close> is
  given the cards of the board without the empty slots and returns positions in that list,
  which \<open>replace_cards\<close> reads as slots of the board: with slots 0, 1, 2 empty and a set
  in slots 3, 4, 5 the opponent scores, slots 0, 1, 2 are emptied again, and the set stays
  on the board.
\<close>

theorem tick_replaces_wrong_slots:
  "find_one_set (present (displayed_cards game_gaps)) = Inr (Some (0, 1, 2))
   \<and> playing_event USEREVENT game_gaps = Inr (game_gaps\<lparr>timer := 30, computer_score := 1\<rparr>)
   \<and> displayed_cards (game_gaps\<lparr>timer := 30, computer_score := 1\<rparr>) ! 3 = Some red1
   \<and> displayed_cards (game_gaps\<lparr>timer := 30, computer_score := 1\<rparr>) ! 4 = Some green1
   \<and> displayed_cards (game_gaps\<lparr>timer := 30, computer_score := 1\<rparr>) ! 5 = Some purple1"
  by (simp add: playing_event_def on_tick_def end_check_def game_gaps_def board_gaps_def
      present_def find_one_gaps find_all_gaps)

end
